theory Spec2Isabelle
  imports Main
begin

section \<open>Data model of pendingStateManager.ts\<close>

text \<open>
  The embedding follows
  \<^verbatim>\<open>packages/runtime/container-runtime/src/pendingStateManager.ts\<close>.
  JavaScript values of type \<^verbatim>\<open>any\<close>/\<^verbatim>\<open>unknown\<close> are kept opaque: \<open>'c\<close> is the type
  of op contents, \<open>'m\<close> the type of local op metadata. Sequence numbers are JavaScript
  numbers holding integers and are modelled as \<open>int\<close>.
\<close>

datatype FlushMode = Automatic | Manual

text \<open>\<^verbatim>\<open>interface IPendingMessage\<close> (the tag \<^verbatim>\<open>type: "message"\<close> is the constructor below).\<close>

record ('c, 'm) IPendingMessage =
  messageType :: string
  clientSequenceNumber :: int
  referenceSequenceNumber :: int
  content :: 'c
  localOpMetadata :: 'm
  opMetadata :: "(string \<times> 'c) list option"

text \<open>\<^verbatim>\<open>type IPendingState = IPendingMessage | IPendingFlushMode | IPendingFlush\<close>.\<close>

datatype ('c, 'm) IPendingState =
    Message "('c, 'm) IPendingMessage"
  | FlushModeState FlushMode
  | Flush

type_synonym ('c, 'm) entries = "('c, 'm) IPendingState list"

fun isMessage :: "('c, 'm) IPendingState \<Rightarrow> bool" where
  "isMessage (Message p) = True"
| "isMessage (FlushModeState fm) = False"
| "isMessage Flush = False"

text \<open>\<^verbatim>\<open>interface IPendingLocalState\<close>.\<close>

record ('c, 'm) IPendingLocalState =
  ls_clientId :: "string option"
  ls_pendingStates :: "('c, 'm) entries"

text \<open>
  The fields of \<^verbatim>\<open>ISequencedDocumentMessage\<close> that the manager reads. \<open>m_objectId\<close> is
  the identity of the JavaScript object: \<^verbatim>\<open>this.pendingBatchBeginMessage === message\<close>
  compares references, which the model renders as equality of \<open>m_objectId\<close>.
  \<open>m_batch\<close> is \<^verbatim>\<open>message.metadata?.batch\<close>, \<open>None\<close> for \<^verbatim>\<open>undefined\<close>.
\<close>

record ISequencedDocumentMessage =
  m_objectId :: nat
  m_type :: string
  m_clientId :: string
  m_sequenceNumber :: int
  m_clientSequenceNumber :: int
  m_batch :: "bool option"

text \<open>
  \<^verbatim>\<open>ContainerMessageType.ChunkedOp\<close>: the enum lives in containerRuntime.ts; only this
  member is compared against.
\<close>

definition ChunkedOp :: string where
  "ChunkedOp = ''chunkedOp''"

text \<open>The argument of \<^verbatim>\<open>new DataCorruptionError("Unexpected ack received", {...})\<close>.\<close>

record DataCorruptionError =
  e_message :: string
  e_clientId :: string
  e_sequenceNumber :: int
  e_clientSequenceNumber :: int
  e_expectedClientSequenceNumber :: int

text \<open>
  Exceptions: a failed \<^verbatim>\<open>assert(cond, msg)\<close>, a \<^verbatim>\<open>throw new Error(msg)\<close>, and the
  TypeError of reading a property of \<^verbatim>\<open>undefined\<close>.
\<close>

datatype exn = AssertFailed string | ThrownError string | TypeError

text \<open>
  The state: the private fields of \<^verbatim>\<open>class PendingStateManager\<close>, the three properties
  of \<^verbatim>\<open>this.containerRuntime\<close> that the class reads (\<open>rt_connected\<close>, \<open>rt_clientId\<close>,
  \<open>rt_flushMode\<close>), and two logs of calls that leave the class:
  \<open>closeFnCalls\<close> for \<^verbatim>\<open>this.containerRuntime.closeFn(error)\<close> and \<open>rebaseOpCalls\<close> for
  \<^verbatim>\<open>this.rebaseOp(content, localOpMetadata)\<close>. Both deques are lists, front first.
\<close>

record ('c, 'm) PendingStateManager =
  pendingStates :: "('c, 'm) entries"
  initialStates :: "('c, 'm) entries"
  initialClientId :: "string option"
  initialClientSeqNum :: int
  pendingMessagesCount :: int
  isProcessingBatch :: bool
  pendingBatchBeginMessage :: "ISequencedDocumentMessage option"
  clientId :: "string option"
  rt_connected :: bool
  rt_clientId :: "string option"
  rt_flushMode :: FlushMode
  closeFnCalls :: "DataCorruptionError list"
  rebaseOpCalls :: "('c \<times> 'm) list"

text \<open>The value returned by \<^verbatim>\<open>processMessage\<close>: \<^verbatim>\<open>{ localAck, localOpMetadata }\<close>.\<close>

record 'm ProcessResult =
  localAck :: bool
  resultLocalOpMetadata :: "'m option"

section \<open>Construction and serialisation\<close>

text \<open>The constructor's loop: client sequence number of the first actual message, else -1.\<close>

fun firstMessageSeqNum :: "('c, 'm) entries \<Rightarrow> int" where
  "firstMessageSeqNum [] = - 1"
| "firstMessageSeqNum (Message p # rest) = clientSequenceNumber p"
| "firstMessageSeqNum (FlushModeState fm # rest) = firstMessageSeqNum rest"
| "firstMessageSeqNum (Flush # rest) = firstMessageSeqNum rest"

text \<open>
  \<^verbatim>\<open>constructor(containerRuntime, rebaseOp, initialState)\<close>. The runtime is given by the
  three properties the class reads.
\<close>

definition newPendingStateManager ::
  "bool \<Rightarrow> string option \<Rightarrow> FlushMode \<Rightarrow> ('c, 'm) IPendingLocalState option
     \<Rightarrow> ('c, 'm) PendingStateManager" where
  "newPendingStateManager conn cid fm initialState =
     (let initial = (case initialState of None \<Rightarrow> [] | Some st \<Rightarrow> ls_pendingStates st) in
      \<lparr> pendingStates = [],
        initialStates = initial,
        initialClientId = (case initialState of None \<Rightarrow> None | Some st \<Rightarrow> ls_clientId st),
        initialClientSeqNum = firstMessageSeqNum initial,
        pendingMessagesCount = 0,
        isProcessingBatch = False,
        pendingBatchBeginMessage = None,
        clientId = None,
        rt_connected = conn,
        rt_clientId = cid,
        rt_flushMode = fm,
        closeFnCalls = [],
        rebaseOpCalls = [] \<rparr>)"

definition hasPendingMessages :: "('c, 'm) PendingStateManager \<Rightarrow> bool" where
  "hasPendingMessages s = (pendingMessagesCount s \<noteq> 0)"

definition getLocalState :: "('c, 'm) PendingStateManager \<Rightarrow> ('c, 'm) IPendingLocalState option" where
  "getLocalState s =
     (if hasPendingMessages s
      then Some \<lparr> ls_clientId = clientId s, ls_pendingStates = pendingStates s \<rparr>
      else None)"

section \<open>Submission\<close>

definition onSubmitMessage ::
  "string \<Rightarrow> int \<Rightarrow> int \<Rightarrow> 'c \<Rightarrow> 'm \<Rightarrow> (string \<times> 'c) list option
     \<Rightarrow> ('c, 'm) PendingStateManager \<Rightarrow> ('c, 'm) PendingStateManager" where
  "onSubmitMessage type csn rsn cont lom opm s =
     (let pendingMessage = \<lparr> messageType = type, clientSequenceNumber = csn,
            referenceSequenceNumber = rsn, content = cont, localOpMetadata = lom,
            opMetadata = opm \<rparr>
      in s\<lparr> pendingStates := pendingStates s @ [Message pendingMessage],
            pendingMessagesCount := pendingMessagesCount s + 1 \<rparr>)"

text \<open>\<^verbatim>\<open>Deque.peekBack()\<close>: \<open>None\<close> for \<^verbatim>\<open>undefined\<close> on an empty deque.\<close>

definition peekBack :: "'a list \<Rightarrow> 'a option" where
  "peekBack xs = (if xs = [] then None else Some (last xs))"

text \<open>\<^verbatim>\<open>Deque.removeBack()\<close>: nothing happens on an empty deque.\<close>

definition removeBack :: "'a list \<Rightarrow> 'a list" where
  "removeBack xs = butlast xs"

text \<open>
  \<^verbatim>\<open>onFlushModeUpdated\<close>: both tests read \<open>previousState\<close>, which was peeked before the
  first removal.
\<close>

definition onFlushModeUpdated ::
  "FlushMode \<Rightarrow> ('c, 'm) PendingStateManager \<Rightarrow> ('c, 'm) PendingStateManager" where
  "onFlushModeUpdated flushMode s =
     (let pendingFlushMode = FlushModeState flushMode in
      if flushMode = Automatic then
        (let previousState = peekBack (pendingStates s);
             s1 = (if previousState = Some Flush
                   then s\<lparr> pendingStates := removeBack (pendingStates s) \<rparr> else s)
         in if previousState = Some (FlushModeState Manual)
            then s1\<lparr> pendingStates := removeBack (pendingStates s1) \<rparr>
            else s1\<lparr> pendingStates := pendingStates s1 @ [pendingFlushMode] \<rparr>)
      else s\<lparr> pendingStates := pendingStates s @ [pendingFlushMode] \<rparr>)"

definition onFlush :: "('c, 'm) PendingStateManager \<Rightarrow> ('c, 'm) PendingStateManager" where
  "onFlush s =
     (if rt_flushMode s = Automatic then s
      else (case peekBack (pendingStates s) of
              Some (Message p) \<Rightarrow> s\<lparr> pendingStates := pendingStates s @ [Flush] \<rparr>
            | _ \<Rightarrow> s))"

section \<open>Processing acks\<close>

text \<open>\<^verbatim>\<open>peekNextPendingState\<close>: the front of the queue, asserted to exist.\<close>

definition peekNextPendingState ::
  "('c, 'm) PendingStateManager \<Rightarrow> exn + ('c, 'm) IPendingState" where
  "peekNextPendingState s =
     (case pendingStates s of
        [] \<Rightarrow> Inl (AssertFailed ''No pending state found for the remote message'')
      | nextPendingState # rest \<Rightarrow> Inr nextPendingState)"

text \<open>
  The stateful methods return the outcome (an exception or the returned value) together
  with the state as the method left it: mutations made before a throw stay.
\<close>

definition maybeProcessBatchBegin ::
  "ISequencedDocumentMessage \<Rightarrow> ('c, 'm) PendingStateManager
     \<Rightarrow> (exn + unit) \<times> ('c, 'm) PendingStateManager" where
  "maybeProcessBatchBegin message s =
     (case peekNextPendingState s of
        Inl e \<Rightarrow> (Inl e, s)
      | Inr pendingState \<Rightarrow>
          if isMessage pendingState then (Inr (), s)
          else if pendingState = FlushModeState Automatic then
            (Inl (AssertFailed ''Flush mode should be manual when processing batch begin''), s)
          else if \<not> (\<not> isProcessingBatch s \<and> pendingBatchBeginMessage s = None) then
            (Inl (AssertFailed
               ''The pending batch state indicates we are already processing a batch''), s)
          else (Inr (), s\<lparr> pendingBatchBeginMessage := Some message,
                            isProcessingBatch := True,
                            pendingStates := tl (pendingStates s) \<rparr>))"

definition maybeProcessBatchEnd ::
  "ISequencedDocumentMessage \<Rightarrow> ('c, 'm) PendingStateManager
     \<Rightarrow> (exn + unit) \<times> ('c, 'm) PendingStateManager" where
  "maybeProcessBatchEnd message s =
     (case peekNextPendingState s of
        Inl e \<Rightarrow> (Inl e, s)
      | Inr nextPendingState \<Rightarrow>
          if isMessage nextPendingState then (Inr (), s)
          else if nextPendingState = FlushModeState Manual then
            (Inl (AssertFailed
               ''Flush mode is set to Manual in the middle of processing a batch''), s)
          else
            (let s1 = (if nextPendingState = Flush then s
                       else s\<lparr> pendingStates := tl (pendingStates s) \<rparr>);
                 done = (Inr (), s1\<lparr> pendingBatchBeginMessage := None,
                                       isProcessingBatch := False \<rparr>)
             in case pendingBatchBeginMessage s1 of
                  None \<Rightarrow> (Inl (AssertFailed ''There is no pending batch begin message''), s1)
                | Some batchBegin \<Rightarrow>
                    if m_objectId batchBegin = m_objectId message then
                      (if m_batch batchBegin = None then done
                       else (Inl (AssertFailed
                               ''Batch with single message should not have batch metadata''), s1))
                    else if m_batch batchBegin \<noteq> Some True then
                      (Inl (AssertFailed ''Did not receive batch begin metadata''), s1)
                    else if m_batch message \<noteq> Some False then
                      (Inl (AssertFailed ''Did not receive batch end metadata''), s1)
                    else done))"

definition unexpectedAck ::
  "ISequencedDocumentMessage \<Rightarrow> int \<Rightarrow> DataCorruptionError" where
  "unexpectedAck message expected =
     \<lparr> e_message = ''Unexpected ack received'',
       e_clientId = m_clientId message,
       e_sequenceNumber = m_sequenceNumber message,
       e_clientSequenceNumber = m_clientSequenceNumber message,
       e_expectedClientSequenceNumber = expected \<rparr>"

text \<open>
  \<^verbatim>\<open>processPendingLocalMessage\<close>: the value is \<open>None\<close> for the bare \<^verbatim>\<open>return;\<close> after
  \<^verbatim>\<open>closeFn\<close>, and the popped message's local metadata otherwise.
\<close>

definition processPendingLocalMessage ::
  "ISequencedDocumentMessage \<Rightarrow> ('c, 'm) PendingStateManager
     \<Rightarrow> (exn + 'm option) \<times> ('c, 'm) PendingStateManager" where
  "processPendingLocalMessage message s =
     (case maybeProcessBatchBegin message s of
        (Inl e, s1) \<Rightarrow> (Inl e, s1)
      | (Inr u, s1) \<Rightarrow>
          (case peekNextPendingState s1 of
             Inl e \<Rightarrow> (Inl e, s1)
           | Inr (FlushModeState fm) \<Rightarrow>
               (Inl (AssertFailed ''No pending message found for this remote message''), s1)
           | Inr Flush \<Rightarrow>
               (Inl (AssertFailed ''No pending message found for this remote message''), s1)
           | Inr (Message pendingState) \<Rightarrow>
               (let s2 = s1\<lparr> pendingStates := tl (pendingStates s1) \<rparr> in
                if clientSequenceNumber pendingState \<noteq> m_clientSequenceNumber message then
                  (Inr None,
                   s2\<lparr> closeFnCalls := closeFnCalls s2 @
                          [unexpectedAck message (clientSequenceNumber pendingState)] \<rparr>)
                else
                  (let s3 = s2\<lparr> pendingMessagesCount := pendingMessagesCount s2 - 1 \<rparr> in
                   if isProcessingBatch s3 then
                     (case maybeProcessBatchEnd message s3 of
                        (Inl e, s4) \<Rightarrow> (Inl e, s4)
                      | (Inr u, s4) \<Rightarrow> (Inr (Some (localOpMetadata pendingState)), s4))
                   else (Inr (Some (localOpMetadata pendingState)), s3)))))"

text \<open>
  The first loop of \<^verbatim>\<open>processRemoteMessage\<close>: rebase initial ops up to and including
  the message's sequence number. \<open>Some e\<close> is the exception that ended it.
\<close>

function rebaseInitialStates ::
  "ISequencedDocumentMessage \<Rightarrow> ('c, 'm) PendingStateManager
     \<Rightarrow> exn option \<times> ('c, 'm) PendingStateManager" where
  "rebaseInitialStates message s =
     (case initialStates s of
        [] \<Rightarrow> (None, s)
      | FlushModeState fm # rest \<Rightarrow>
          rebaseInitialStates message
            (s\<lparr> initialStates := rest,
                pendingStates := pendingStates s @ [FlushModeState fm] \<rparr>)
      | Flush # rest \<Rightarrow>
          rebaseInitialStates message
            (s\<lparr> initialStates := rest, pendingStates := pendingStates s @ [Flush] \<rparr>)
      | Message nextState # rest \<Rightarrow>
          if referenceSequenceNumber nextState > m_sequenceNumber message then (None, s)
          else if clientSequenceNumber nextState = initialClientSeqNum s
                  \<and> m_sequenceNumber message > referenceSequenceNumber nextState
          then (Some (ThrownError
                  ''loaded from snapshot too recent to rebase pending initial ops''), s)
          else rebaseInitialStates message
                 (s\<lparr> rebaseOpCalls := rebaseOpCalls s @
                        [(content nextState, localOpMetadata nextState)],
                     initialStates := rest,
                     pendingStates := pendingStates s @ [Message nextState] \<rparr>))"
  by pat_completeness auto
termination
  by (relation "measure (\<lambda>(message, s). length (initialStates s))") auto

text \<open>
  The second loop of \<^verbatim>\<open>processRemoteMessage\<close>: shift entries off the pending queue
  until a message comes out; nothing is returned from the loop when the queue runs empty.
\<close>

function dequeueOneMessage ::
  "('c, 'm) PendingStateManager \<Rightarrow> 'm ProcessResult option \<times> ('c, 'm) PendingStateManager" where
  "dequeueOneMessage s =
     (case pendingStates s of
        [] \<Rightarrow> (None, s)
      | Message nextState # rest \<Rightarrow>
          (Some \<lparr> localAck = True, resultLocalOpMetadata = Some (localOpMetadata nextState) \<rparr>,
           s\<lparr> pendingStates := rest \<rparr>)
      | FlushModeState fm # rest \<Rightarrow> dequeueOneMessage (s\<lparr> pendingStates := rest \<rparr>)
      | Flush # rest \<Rightarrow> dequeueOneMessage (s\<lparr> pendingStates := rest \<rparr>))"
  by pat_completeness auto
termination
  by (relation "measure (\<lambda>s. length (pendingStates s))") auto

definition processRemoteMessage ::
  "ISequencedDocumentMessage \<Rightarrow> ('c, 'm) PendingStateManager
     \<Rightarrow> (exn + 'm ProcessResult) \<times> ('c, 'm) PendingStateManager" where
  "processRemoteMessage message s =
     (case rebaseInitialStates message s of
        (Some e, s1) \<Rightarrow> (Inl e, s1)
      | (None, s1) \<Rightarrow>
          if Some (m_clientId message) = initialClientId s1
             \<and> m_clientSequenceNumber message \<ge> initialClientSeqNum s1
          then (case dequeueOneMessage s1 of
                  (Some r, s2) \<Rightarrow> (Inr r, s2)
                | (None, s2) \<Rightarrow> (Inr \<lparr> localAck = False, resultLocalOpMetadata = None \<rparr>, s2))
          else (Inr \<lparr> localAck = False, resultLocalOpMetadata = None \<rparr>, s1))"

definition processMessage ::
  "ISequencedDocumentMessage \<Rightarrow> bool \<Rightarrow> ('c, 'm) PendingStateManager
     \<Rightarrow> (exn + 'm ProcessResult) \<times> ('c, 'm) PendingStateManager" where
  "processMessage message local s =
     (if m_type message = ChunkedOp
      then (Inr \<lparr> localAck = False, resultLocalOpMetadata = None \<rparr>, s)
      else if local then
        (case processPendingLocalMessage message s of
           (Inl e, s1) \<Rightarrow> (Inl e, s1)
         | (Inr v, s1) \<Rightarrow> (Inr \<lparr> localAck = False, resultLocalOpMetadata = v \<rparr>, s1))
      else processRemoteMessage message s)"

section \<open>Replay on reconnect\<close>

text \<open>
  \<^verbatim>\<open>replayPendingStates\<close> calls three methods of \<^verbatim>\<open>this.containerRuntime\<close>:
  \<^verbatim>\<open>reSubmitFn\<close>, \<^verbatim>\<open>setFlushMode\<close> and \<^verbatim>\<open>flush\<close>. The class \<^verbatim>\<open>ContainerRuntime\<close> is
  defined in containerRuntime.ts, so the three methods are parameters of the model: each
  is a transformer of the state, free to re-enter the manager (a resubmission comes back
  through \<^verbatim>\<open>onSubmitMessage\<close>).
\<close>

record ('c, 'm) ContainerRuntime =
  reSubmitFn :: "string \<Rightarrow> 'c \<Rightarrow> 'm \<Rightarrow> (string \<times> 'c) list option
                   \<Rightarrow> ('c, 'm) PendingStateManager \<Rightarrow> ('c, 'm) PendingStateManager"
  setFlushMode :: "FlushMode \<Rightarrow> ('c, 'm) PendingStateManager \<Rightarrow> ('c, 'm) PendingStateManager"
  flush :: "('c, 'm) PendingStateManager \<Rightarrow> ('c, 'm) PendingStateManager"

text \<open>What the runtime observes: the calls made on it, in order.\<close>

datatype ('c, 'm) RuntimeCall =
    ReSubmitCall string 'c 'm "(string \<times> 'c) list option"
  | SetFlushModeCall FlushMode
  | FlushCall

text \<open>
  The \<^verbatim>\<open>switch (pendingState.type)\<close> of the replay loop: \<open>replayEntry\<close> is the effect
  of the call it makes for an entry, \<open>replayCall\<close> the call as the runtime observes it.
\<close>

fun replayEntry ::
  "('c, 'm) ContainerRuntime \<Rightarrow> ('c, 'm) IPendingState \<Rightarrow> ('c, 'm) PendingStateManager
     \<Rightarrow> ('c, 'm) PendingStateManager" where
  "replayEntry rt (Message p) s =
     reSubmitFn rt (messageType p) (content p) (localOpMetadata p) (opMetadata p) s"
| "replayEntry rt (FlushModeState fm) s = setFlushMode rt fm s"
| "replayEntry rt Flush s = flush rt s"

fun replayCall :: "('c, 'm) IPendingState \<Rightarrow> ('c, 'm) RuntimeCall" where
  "replayCall (Message p) =
     ReSubmitCall (messageType p) (content p) (localOpMetadata p) (opMetadata p)"
| "replayCall (FlushModeState fm) = SetFlushModeCall fm"
| "replayCall Flush = FlushCall"

text \<open>The first loop of \<^verbatim>\<open>replayPendingStates\<close>: rebase all remaining initial ops.\<close>

function rebaseRemainingInitialStates ::
  "('c, 'm) PendingStateManager \<Rightarrow> ('c, 'm) PendingStateManager" where
  "rebaseRemainingInitialStates s =
     (case initialStates s of
        [] \<Rightarrow> s
      | Message nextMessage # rest \<Rightarrow>
          rebaseRemainingInitialStates
            (s\<lparr> initialStates := rest,
                rebaseOpCalls := rebaseOpCalls s @
                  [(content nextMessage, localOpMetadata nextMessage)],
                pendingStates := pendingStates s @ [Message nextMessage] \<rparr>)
      | FlushModeState fm # rest \<Rightarrow>
          rebaseRemainingInitialStates
            (s\<lparr> initialStates := rest,
                pendingStates := pendingStates s @ [FlushModeState fm] \<rparr>)
      | Flush # rest \<Rightarrow>
          rebaseRemainingInitialStates
            (s\<lparr> initialStates := rest, pendingStates := pendingStates s @ [Flush] \<rparr>))"
  by pat_completeness auto
termination
  by (relation "measure (\<lambda>s. length (initialStates s))") auto

text \<open>
  The second loop, \<^verbatim>\<open>while (pendingStatesCount > 0)\<close>. \<^verbatim>\<open>shift()\<close> on an empty deque gives
  \<^verbatim>\<open>undefined\<close>, and \<^verbatim>\<open>pendingState.type\<close> then throws a TypeError. The result carries
  the calls made on the runtime.
\<close>

fun replayLoop ::
  "('c, 'm) ContainerRuntime \<Rightarrow> nat \<Rightarrow> ('c, 'm) PendingStateManager
     \<Rightarrow> (exn + unit) \<times> ('c, 'm) RuntimeCall list \<times> ('c, 'm) PendingStateManager" where
  "replayLoop rt 0 s = (Inr (), [], s)"
| "replayLoop rt (Suc pendingStatesCount) s =
     (case pendingStates s of
        [] \<Rightarrow> (Inl TypeError, [], s)
      | pendingState # rest \<Rightarrow>
          (let s1 = s\<lparr> pendingStates := rest \<rparr>;
               call = replayCall pendingState;
               s2 = replayEntry rt pendingState s1
           in case replayLoop rt pendingStatesCount s2 of
                (r, calls, s3) \<Rightarrow> (r, call # calls, s3)))"

definition replayPendingStates ::
  "('c, 'm) ContainerRuntime \<Rightarrow> ('c, 'm) PendingStateManager
     \<Rightarrow> (exn + unit) \<times> ('c, 'm) RuntimeCall list \<times> ('c, 'm) PendingStateManager" where
  "replayPendingStates rt s =
     (if \<not> rt_connected s then
        (Inl (AssertFailed ''The connection state is not consistent with the runtime''), [], s)
      else if clientId s = rt_clientId s then
        (Inl (AssertFailed ''replayPendingStates called twice for same clientId!''), [], s)
      else
        (let s1 = rebaseRemainingInitialStates (s\<lparr> clientId := rt_clientId s \<rparr>);
             pendingStatesCount = length (pendingStates s1)
         in if pendingStatesCount = 0 then (Inr (), [], s1)
            else
              (let s2 = s1\<lparr> pendingMessagesCount := 0 \<rparr>;
                   savedFlushMode = rt_flushMode s2
               in case replayLoop rt pendingStatesCount s2 of
                    (Inl e, calls, s3) \<Rightarrow> (Inl e, calls, s3)
                  | (Inr u, calls, s3) \<Rightarrow>
                      (Inr (), calls @ [SetFlushModeCall savedFlushMode],
                       setFlushMode rt savedFlushMode s3))))"

section \<open>Notions used to state the properties\<close>

text \<open>
  The pending queue as the message-matching step of a local ack finds it: a leading
  flush or flush-mode entry is the batch-begin marker and is skipped.
\<close>

fun nextPendingAfterMarker :: "('c, 'm) entries \<Rightarrow> ('c, 'm) entries" where
  "nextPendingAfterMarker [] = []"
| "nextPendingAfterMarker (Message p # rest) = Message p # rest"
| "nextPendingAfterMarker (FlushModeState fm # rest) = rest"
| "nextPendingAfterMarker (Flush # rest) = rest"

text \<open>A method of the runtime that touches the pending queue only by pushing onto its back.\<close>

definition appendsOnly ::
  "(('c, 'm) PendingStateManager \<Rightarrow> ('c, 'm) PendingStateManager) \<Rightarrow> bool" where
  "appendsOnly f = (\<forall>s. \<exists>added. pendingStates (f s) = pendingStates s @ added)"

definition runtimeAppendsOnly :: "('c, 'm) ContainerRuntime \<Rightarrow> bool" where
  "runtimeAppendsOnly rt =
     ((\<forall>t c l opm. appendsOnly (reSubmitFn rt t c l opm))
      \<and> (\<forall>fm. appendsOnly (setFlushMode rt fm))
      \<and> appendsOnly (flush rt))"

text \<open>
  The calls by which the runtime feeds the manager while ops are submitted. The runtime's
  own \<^verbatim>\<open>flushMode\<close> property, which \<^verbatim>\<open>onFlush\<close> reads, changes outside the class:
  \<open>RuntimeFlushMode\<close> is that change.
\<close>

datatype ('c, 'm) Submission =
    SubmitMessage string int int 'c 'm "(string \<times> 'c) list option"
  | FlushModeUpdated FlushMode
  | FlushCalled
  | RuntimeFlushMode FlushMode

fun submission ::
  "('c, 'm) Submission \<Rightarrow> ('c, 'm) PendingStateManager \<Rightarrow> ('c, 'm) PendingStateManager" where
  "submission (SubmitMessage type csn rsn cont lom opm) s =
     onSubmitMessage type csn rsn cont lom opm s"
| "submission (FlushModeUpdated fm) s = onFlushModeUpdated fm s"
| "submission FlushCalled s = onFlush s"
| "submission (RuntimeFlushMode fm) s = s\<lparr> rt_flushMode := fm \<rparr>"

fun runSubmissions ::
  "('c, 'm) Submission list \<Rightarrow> ('c, 'm) PendingStateManager \<Rightarrow> ('c, 'm) PendingStateManager" where
  "runSubmissions [] s = s"
| "runSubmissions (x # xs) s = runSubmissions xs (submission x s)"

fun isSubmitMessage :: "('c, 'm) Submission \<Rightarrow> bool" where
  "isSubmitMessage (SubmitMessage type csn rsn cont lom opm) = True"
| "isSubmitMessage (FlushModeUpdated fm) = False"
| "isSubmitMessage FlushCalled = False"
| "isSubmitMessage (RuntimeFlushMode fm) = False"

text \<open>
  Every flush entry of a queue comes immediately after a message; \<open>prev\<close> tells whether
  the entry before the queue is a message.
\<close>

fun flushesFollowMessages :: "bool \<Rightarrow> ('c, 'm) entries \<Rightarrow> bool" where
  "flushesFollowMessages prev [] = True"
| "flushesFollowMessages prev (Message p # rest) = flushesFollowMessages True rest"
| "flushesFollowMessages prev (FlushModeState fm # rest) = flushesFollowMessages False rest"
| "flushesFollowMessages prev (Flush # rest) = (prev \<and> flushesFollowMessages False rest)"

text \<open>
  The batch-metadata rule in the words of the specification: a batch of a single message
  (the ack is the very message recorded at batch begin) carries no batch metadata;
  otherwise the first message carries \<open>batch = true\<close> and the last \<open>batch = false\<close>.
\<close>

definition batchMetadataOk :: "ISequencedDocumentMessage \<Rightarrow> ISequencedDocumentMessage \<Rightarrow> bool" where
  "batchMetadataOk batchBegin ack =
     (if m_objectId batchBegin = m_objectId ack then m_batch batchBegin = None
      else m_batch batchBegin = Some True \<and> m_batch ack = Some False)"

text \<open>The arguments of the \<^verbatim>\<open>rebaseOp\<close> calls made while a list of entries is drained.\<close>

fun rebasedOps :: "('c, 'm) entries \<Rightarrow> ('c \<times> 'm) list" where
  "rebasedOps [] = []"
| "rebasedOps (Message p # rest) = (content p, localOpMetadata p) # rebasedOps rest"
| "rebasedOps (FlushModeState fm # rest) = rebasedOps rest"
| "rebasedOps (Flush # rest) = rebasedOps rest"

text \<open>
  The resubmissions among the calls observed by the runtime, and the resubmissions that
  a sequence of submissions calls for: one per submitted op, with its type, content and
  local metadata.
\<close>

fun isReSubmitCall :: "('c, 'm) RuntimeCall \<Rightarrow> bool" where
  "isReSubmitCall (ReSubmitCall type cont lom opm) = True"
| "isReSubmitCall (SetFlushModeCall fm) = False"
| "isReSubmitCall FlushCall = False"

fun resubmissionsOf :: "('c, 'm) Submission list \<Rightarrow> ('c, 'm) RuntimeCall list" where
  "resubmissionsOf [] = []"
| "resubmissionsOf (SubmitMessage type csn rsn cont lom opm # rest) =
     ReSubmitCall type cont lom opm # resubmissionsOf rest"
| "resubmissionsOf (FlushModeUpdated fm # rest) = resubmissionsOf rest"
| "resubmissionsOf (FlushCalled # rest) = resubmissionsOf rest"
| "resubmissionsOf (RuntimeFlushMode fm # rest) = resubmissionsOf rest"

definition resubmitCalls :: "('c, 'm) entries \<Rightarrow> ('c, 'm) RuntimeCall list" where
  "resubmitCalls xs = filter isReSubmitCall (map replayCall xs)"

text \<open>
  The assertions of \<^verbatim>\<open>maybeProcessBatchBegin\<close> hold: the queue is not empty, and when its
  head is a flush entry or a flush-mode entry, the mode is manual and no batch is open.
\<close>

definition batchBeginPasses :: "('c, 'm) PendingStateManager \<Rightarrow> bool" where
  "batchBeginPasses s =
     (case pendingStates s of
        [] \<Rightarrow> False
      | Message p # rest \<Rightarrow> True
      | FlushModeState fm # rest \<Rightarrow>
          fm = Manual \<and> \<not> isProcessingBatch s \<and> pendingBatchBeginMessage s = None
      | Flush # rest \<Rightarrow> \<not> isProcessingBatch s \<and> pendingBatchBeginMessage s = None)"

text \<open>
  No call of the replay loop removes an entry that is still to be replayed: with \<open>k\<close>
  iterations left after a call, the first \<open>k\<close> entries of the queue are those that were
  there before the call. \<open>replayKeepsPending\<close> says so of a whole run of
  \<open>replayPendingStates\<close>.
\<close>

fun replayKeepsFront ::
  "('c, 'm) ContainerRuntime \<Rightarrow> nat \<Rightarrow> ('c, 'm) PendingStateManager \<Rightarrow> bool" where
  "replayKeepsFront rt 0 s = True"
| "replayKeepsFront rt (Suc k) s =
     (case pendingStates s of
        [] \<Rightarrow> False
      | e # rest \<Rightarrow>
          (let s2 = replayEntry rt e (s\<lparr> pendingStates := rest \<rparr>)
           in k \<le> length rest \<and> take k (pendingStates s2) = take k rest
              \<and> replayKeepsFront rt k s2))"

definition replayKeepsPending ::
  "('c, 'm) ContainerRuntime \<Rightarrow> ('c, 'm) PendingStateManager \<Rightarrow> bool" where
  "replayKeepsPending rt s =
     (let s1 = rebaseRemainingInitialStates (s\<lparr> clientId := rt_clientId s \<rparr>);
          s2 = s1\<lparr> pendingMessagesCount := 0 \<rparr>
      in replayKeepsFront rt (length (pendingStates s1)) s2)"

text \<open>
  Modelled from the spec: the methods \<^verbatim>\<open>submit\<close>, \<^verbatim>\<open>setFlushMode\<close> and \<^verbatim>\<open>flush\<close> of
  \<^verbatim>\<open>ContainerRuntime\<close> (containerRuntime.ts is not among the sources), as section 4.1.7
  of the specification and the comments on \<^verbatim>\<open>IPendingMessage\<close>, \<^verbatim>\<open>IPendingFlushMode\<close>
  and \<^verbatim>\<open>IPendingFlush\<close> describe them: a resubmission re-enters through
  \<^verbatim>\<open>onSubmitMessage\<close> (with a client sequence number counted from 100); a flush-mode
  entry "is added to the pending queue when \<^verbatim>\<open>setFlushMode\<close> is called on the
  ContainerRuntime and the FlushMode changes", so \<^verbatim>\<open>setFlushMode\<close> re-enters through
  \<^verbatim>\<open>onFlushModeUpdated\<close> when the mode changes and stores the mode; \<^verbatim>\<open>flush\<close> re-enters
  through \<^verbatim>\<open>onFlush\<close>.
\<close>

definition notifyingRuntime :: "('c, 'm) ContainerRuntime" where
  "notifyingRuntime =
     \<lparr> reSubmitFn = (\<lambda>t c l opm s.
           onSubmitMessage t (100 + pendingMessagesCount s) 0 c l opm s),
       setFlushMode = (\<lambda>fm s.
           if fm = rt_flushMode s then s
           else (onFlushModeUpdated fm s)\<lparr> rt_flushMode := fm \<rparr>),
       flush = onFlush \<rparr>"

text \<open>
  What happens to a manager on that runtime: ops are submitted, the flush mode is set,
  a flush is requested, a sequenced message is processed, and the runtime connects under
  a client id, upon which the pending states are replayed.
\<close>

datatype ('c, 'm) RuntimeEvent =
    SubmitEvent string int int 'c 'm "(string \<times> 'c) list option"
  | SetFlushModeEvent FlushMode
  | FlushEvent
  | ProcessMessageEvent ISequencedDocumentMessage bool
  | ConnectEvent "string option"

fun runtimeEvent ::
  "('c, 'm) RuntimeEvent \<Rightarrow> ('c, 'm) PendingStateManager \<Rightarrow> ('c, 'm) PendingStateManager" where
  "runtimeEvent (SubmitEvent type csn rsn cont lom opm) s =
     onSubmitMessage type csn rsn cont lom opm s"
| "runtimeEvent (SetFlushModeEvent fm) s = setFlushMode notifyingRuntime fm s"
| "runtimeEvent FlushEvent s = flush notifyingRuntime s"
| "runtimeEvent (ProcessMessageEvent message local) s = snd (processMessage message local s)"
| "runtimeEvent (ConnectEvent cid) s =
     snd (snd (replayPendingStates notifyingRuntime (s\<lparr> rt_connected := True, rt_clientId := cid \<rparr>)))"

fun runEvents ::
  "('c, 'm) RuntimeEvent list \<Rightarrow> ('c, 'm) PendingStateManager \<Rightarrow> ('c, 'm) PendingStateManager" where
  "runEvents [] s = s"
| "runEvents (x # xs) s = runEvents xs (runtimeEvent x s)"

fun isSubmitEvent :: "('c, 'm) RuntimeEvent \<Rightarrow> bool" where
  "isSubmitEvent (SubmitEvent type csn rsn cont lom opm) = True"
| "isSubmitEvent (SetFlushModeEvent fm) = False"
| "isSubmitEvent FlushEvent = False"
| "isSubmitEvent (ProcessMessageEvent message local) = False"
| "isSubmitEvent (ConnectEvent cid) = False"

fun isSubmissionEvent :: "('c, 'm) RuntimeEvent \<Rightarrow> bool" where
  "isSubmissionEvent (SubmitEvent type csn rsn cont lom opm) = True"
| "isSubmissionEvent (SetFlushModeEvent fm) = True"
| "isSubmissionEvent FlushEvent = True"
| "isSubmissionEvent (ProcessMessageEvent message local) = False"
| "isSubmissionEvent (ConnectEvent cid) = False"

text \<open>
  Every flush entry of a queue stands between messages: the entry before it is a message
  unless it is the head of the queue (\<open>prev\<close> tells whether an entry at the head is
  admitted), and the entry after it is a message unless it is the tail.
\<close>

fun flushesSeparateMessages :: "bool \<Rightarrow> ('c, 'm) entries \<Rightarrow> bool" where
  "flushesSeparateMessages prev [] = True"
| "flushesSeparateMessages prev (Message p # rest) = flushesSeparateMessages True rest"
| "flushesSeparateMessages prev (FlushModeState fm # rest) = flushesSeparateMessages False rest"
| "flushesSeparateMessages prev (Flush # rest) =
     (prev \<and> (case rest of [] \<Rightarrow> True | e # r \<Rightarrow> isMessage e)
      \<and> flushesSeparateMessages False rest)"

fun isFlushModeState :: "('c, 'm) IPendingState \<Rightarrow> bool" where
  "isFlushModeState (Message p) = False"
| "isFlushModeState (FlushModeState fm) = True"
| "isFlushModeState Flush = False"

text \<open>
  The invariant of the pending queue on that runtime, for a manager without rehydrated
  entries: flush entries stand between messages, and a flush entry at the tail means
  that the runtime is in manual mode.
\<close>

definition queueInv :: "('c, 'm) PendingStateManager \<Rightarrow> bool" where
  "queueInv s =
     (flushesSeparateMessages True (pendingStates s)
      \<and> (pendingStates s = [] \<or> last (pendingStates s) \<noteq> Flush \<or> rt_flushMode s = Manual)
      \<and> initialStates s = [])"

text \<open>The step from \<open>s\<close> to \<open>s'\<close> only shifts entries off the front of the pending queue.\<close>

definition popsFront ::
  "('c, 'm) PendingStateManager \<Rightarrow> ('c, 'm) PendingStateManager \<Rightarrow> bool" where
  "popsFront s s' =
     ((\<exists>k. pendingStates s' = drop k (pendingStates s))
      \<and> rt_flushMode s' = rt_flushMode s \<and> initialStates s' = initialStates s)"

text \<open>The pending queue holds flush-mode entries only: no message has been enqueued.\<close>

definition onlyFlushModes :: "('c, 'm) PendingStateManager \<Rightarrow> bool" where
  "onlyFlushModes s = (list_all isFlushModeState (pendingStates s) \<and> initialStates s = [])"

section \<open>Example inputs\<close>

text \<open>A manager without initial state, on a connected runtime in automatic flush mode.\<close>

definition freshManager :: "(string, string) PendingStateManager" where
  "freshManager = newPendingStateManager True (Some ''client-1'') Automatic None"

definition exampleAck :: "nat \<Rightarrow> int \<Rightarrow> int \<Rightarrow> bool option \<Rightarrow> ISequencedDocumentMessage" where
  "exampleAck oid sn csn batch =
     \<lparr> m_objectId = oid, m_type = ''op'', m_clientId = ''client-1'',
       m_sequenceNumber = sn, m_clientSequenceNumber = csn, m_batch = batch \<rparr>"

text \<open>One op submitted with client sequence number 5.\<close>

definition submittedOne :: "(string, string) PendingStateManager" where
  "submittedOne = onSubmitMessage ''op'' 5 0 ''a'' ''meta-a'' None freshManager"

text \<open>The flush mode set to manual, then one op submitted, and nothing after it.\<close>

definition manualThenSubmit :: "(string, string) PendingStateManager" where
  "manualThenSubmit =
     onSubmitMessage ''op'' 1 0 ''a'' ''meta-a'' None (onFlushModeUpdated Manual freshManager)"

text \<open>
  A manager rehydrated from the state of client-1, which holds one message with client
  sequence number 1 and reference sequence number 100.
\<close>

definition staleMessage :: "(string, string) IPendingMessage" where
  "staleMessage = \<lparr> messageType = ''op'', clientSequenceNumber = 1,
     referenceSequenceNumber = 100, content = ''a'', localOpMetadata = ''meta-a'',
     opMetadata = None \<rparr>"

definition rehydratedManager :: "(string, string) PendingStateManager" where
  "rehydratedManager =
     newPendingStateManager True (Some ''client-2'') Automatic
       (Some \<lparr> ls_clientId = Some ''client-1'', ls_pendingStates = [Message staleMessage] \<rparr>)"

text \<open>The message that \<open>SubmitMessage ''op'' csn 0 cont lom None\<close> enqueues.\<close>

definition exampleMessage :: "int \<Rightarrow> string \<Rightarrow> string \<Rightarrow> (string, string) IPendingMessage" where
  "exampleMessage csn cont lom = \<lparr> messageType = ''op'', clientSequenceNumber = csn,
     referenceSequenceNumber = 0, content = cont, localOpMetadata = lom,
     opMetadata = None \<rparr>"

text \<open>
  Three ops submitted in manual flush mode and then flushed: the pending queue holds the
  manual entry, the three messages and a flush entry.
\<close>

definition batchOps :: "(string, string) Submission list" where
  "batchOps =
       [RuntimeFlushMode Manual, FlushModeUpdated Manual,
        SubmitMessage ''op'' 1 0 ''a'' ''meta-a'' None,
        SubmitMessage ''op'' 2 0 ''b'' ''meta-b'' None,
        SubmitMessage ''op'' 3 0 ''c'' ''meta-c'' None,
        FlushCalled]"

definition batchOfThree :: "(string, string) PendingStateManager" where
  "batchOfThree = runSubmissions batchOps freshManager"

text \<open>The same after the local acks of the first two ops; the first carries batch = true.\<close>

definition afterTwoAcks :: "(string, string) PendingStateManager" where
  "afterTwoAcks =
     snd (processMessage (exampleAck 2 11 2 None) True
       (snd (processMessage (exampleAck 1 10 1 (Some True)) True batchOfThree)))"

text \<open>Two manual batches of one op each, separated by a flush.\<close>

definition twoBatches :: "(string, string) PendingStateManager" where
  "twoBatches =
     runSubmissions
       [RuntimeFlushMode Manual, FlushModeUpdated Manual,
        SubmitMessage ''op'' 1 0 ''a'' ''meta-a'' None,
        FlushCalled,
        SubmitMessage ''op'' 2 0 ''b'' ''meta-b'' None]
       freshManager"

text \<open>A new manager on client-2, built from the serialised state of \<open>batchOfThree\<close>.\<close>

definition rehydratedBatch :: "(string, string) PendingStateManager" where
  "rehydratedBatch =
     newPendingStateManager True (Some ''client-2'') Automatic (getLocalState batchOfThree)"

text \<open>A manager that has seen a flush-mode change and no op.\<close>

definition onlyFlushMode :: "(string, string) PendingStateManager" where
  "onlyFlushMode = runSubmissions [FlushModeUpdated Manual] freshManager"

text \<open>An op of another client, sequenced at 100.\<close>

definition remoteAck :: ISequencedDocumentMessage where
  "remoteAck = \<lparr> m_objectId = 7, m_type = ''op'', m_clientId = ''client-3'',
       m_sequenceNumber = 100, m_clientSequenceNumber = 9, m_batch = None \<rparr>"


text \<open>
  On the runtime modelled above: manual mode, an op, a connection as client-1 (which
  replays the op), automatic mode, a second op, manual mode again, and the local ack of
  the replayed op. The runtime then reconnects as client-2.
\<close>

definition staleModeEvents :: "(string, string) RuntimeEvent list" where
  "staleModeEvents =
     [SetFlushModeEvent Manual,
      SubmitEvent ''op'' 1 0 ''a'' ''meta-a'' None,
      ConnectEvent (Some ''client-1''),
      SetFlushModeEvent Automatic,
      SubmitEvent ''op'' 2 0 ''b'' ''meta-b'' None,
      SetFlushModeEvent Manual,
      ProcessMessageEvent (exampleAck 1 10 100 None) True]"

definition staleModes :: "(string, string) PendingStateManager" where
  "staleModes =
     (runEvents staleModeEvents freshManager)\<lparr> rt_connected := True,
        rt_clientId := Some ''client-2'' \<rparr>"

text \<open>The same without the second op.\<close>

definition danglingModeEvents :: "(string, string) RuntimeEvent list" where
  "danglingModeEvents =
     [SetFlushModeEvent Manual,
      SubmitEvent ''op'' 1 0 ''a'' ''meta-a'' None,
      ConnectEvent (Some ''client-1''),
      SetFlushModeEvent Automatic,
      SetFlushModeEvent Manual,
      ProcessMessageEvent (exampleAck 1 10 100 None) True]"

definition danglingModes :: "(string, string) PendingStateManager" where
  "danglingModes =
     (runEvents danglingModeEvents freshManager)\<lparr> rt_connected := True,
        rt_clientId := Some ''client-2'' \<rparr>"

text \<open>
  Two manual batches of one op each on that runtime, and the local ack of the first op.
\<close>

definition twoBatchEvents :: "(string, string) RuntimeEvent list" where
  "twoBatchEvents =
     [SetFlushModeEvent Manual,
      SubmitEvent ''op'' 1 0 ''a'' ''meta-a'' None,
      FlushEvent,
      SubmitEvent ''op'' 2 0 ''b'' ''meta-b'' None,
      ProcessMessageEvent (exampleAck 1 10 1 None) True]"

text \<open>
  A manager rehydrated from the state of client-1 (a manual flush-mode entry and one
  message), on which an op is submitted in manual mode and flushed before the op of
  another client, sequenced at 100, is processed; a second op follows.
\<close>

definition rehydratedManual :: "(string, string) PendingStateManager" where
  "rehydratedManual =
     newPendingStateManager True (Some ''client-2'') Automatic
       (Some \<lparr> ls_clientId = Some ''client-1'',
               ls_pendingStates = [FlushModeState Manual, Message staleMessage] \<rparr>)"

definition rehydrationEvents :: "(string, string) RuntimeEvent list" where
  "rehydrationEvents =
     [SetFlushModeEvent Manual,
      SubmitEvent ''op'' 7 0 ''x'' ''meta-x'' None,
      FlushEvent,
      ProcessMessageEvent remoteAck False,
      SubmitEvent ''op'' 8 0 ''y'' ''meta-y'' None]"

section \<open>Local acks: helper lemmas\<close>

lemmas example_defs = freshManager_def exampleAck_def submittedOne_def
  manualThenSubmit_def staleMessage_def rehydratedManager_def newPendingStateManager_def
  onSubmitMessage_def onFlushModeUpdated_def onFlush_def peekBack_def removeBack_def ChunkedOp_def
  exampleMessage_def batchOps_def batchOfThree_def twoBatches_def rehydratedBatch_def
  onlyFlushMode_def remoteAck_def

lemma newPendingStateManager_fields:
  "pendingStates (newPendingStateManager conn cid fm initialState) = []"
  "initialStates (newPendingStateManager conn cid fm (Some st)) = ls_pendingStates st"
  "initialStates (newPendingStateManager conn cid fm None) = []"
  "pendingMessagesCount (newPendingStateManager conn cid fm initialState) = 0"
  "clientId (newPendingStateManager conn cid fm initialState) = None"
  "rt_connected (newPendingStateManager conn cid fm initialState) = conn"
  "rt_clientId (newPendingStateManager conn cid fm initialState) = cid"
  "rt_flushMode (newPendingStateManager conn cid fm initialState) = fm"
  by (simp_all add: newPendingStateManager_def Let_def)

lemmas ack_defs = processMessage_def processPendingLocalMessage_def maybeProcessBatchBegin_def
  maybeProcessBatchEnd_def peekNextPendingState_def unexpectedAck_def

lemma batchBegin_cases:
  assumes "maybeProcessBatchBegin ack s = (r, s1)"
  shows "((\<exists>msg. r = Inl (AssertFailed msg)) \<and> s1 = s)
       \<or> (r = Inr () \<and> pendingStates s \<noteq> []
            \<and> pendingStates s1 = nextPendingAfterMarker (pendingStates s)
            \<and> closeFnCalls s1 = closeFnCalls s
            \<and> pendingMessagesCount s1 = pendingMessagesCount s)"
proof (cases "pendingStates s")
  case Nil
  with assms show ?thesis
    by (auto simp: maybeProcessBatchBegin_def peekNextPendingState_def)
next
  case (Cons e rest)
  with assms show ?thesis
    by (cases e) (auto simp: maybeProcessBatchBegin_def peekNextPendingState_def split: if_splits)
qed

lemma batchEnd_frame:
  assumes "maybeProcessBatchEnd ack s = (r, s1)"
  shows "closeFnCalls s1 = closeFnCalls s
       \<and> pendingMessagesCount s1 = pendingMessagesCount s
       \<and> (r = Inr () \<or> (\<exists>msg. r = Inl (AssertFailed msg)))"
proof (cases "pendingStates s")
  case Nil
  with assms show ?thesis
    by (auto simp: maybeProcessBatchEnd_def peekNextPendingState_def)
next
  case (Cons e rest)
  with assms show ?thesis
    by (cases e; cases "pendingBatchBeginMessage s")
       (auto simp: maybeProcessBatchEnd_def peekNextPendingState_def Let_def split: if_splits)
qed

text \<open>
  The three ways a local ack can go: the message found after the batch-begin marker has
  the ack's client sequence number; it has another one and \<^verbatim>\<open>closeFn\<close> is called; or an
  assertion fails before any message is matched.
\<close>

lemma local_cases:
  fixes s :: "('c, 'm) PendingStateManager"
  assumes run: "processPendingLocalMessage ack s = (r, s')"
  shows "(\<exists>p rest. nextPendingAfterMarker (pendingStates s) = Message p # rest
            \<and> clientSequenceNumber p = m_clientSequenceNumber ack
            \<and> closeFnCalls s' = closeFnCalls s
            \<and> (r = Inr (Some (localOpMetadata p)) \<or> (\<exists>msg. r = Inl (AssertFailed msg))))
       \<or> (\<exists>p rest. nextPendingAfterMarker (pendingStates s) = Message p # rest
            \<and> clientSequenceNumber p \<noteq> m_clientSequenceNumber ack
            \<and> r = Inr None
            \<and> closeFnCalls s' = closeFnCalls s @ [unexpectedAck ack (clientSequenceNumber p)])
       \<or> ((\<exists>msg. r = Inl (AssertFailed msg))
            \<and> closeFnCalls s' = closeFnCalls s
            \<and> pendingMessagesCount s' = pendingMessagesCount s)"
proof -
  obtain r1 s1 where bb: "maybeProcessBatchBegin ack s = (r1, s1)"
    by (cases "maybeProcessBatchBegin ack s")
  from batchBegin_cases [OF bb] show ?thesis
  proof (elim disjE conjE exE)
    fix msg
    assume "r1 = Inl (AssertFailed msg)" "s1 = s"
    with run bb show ?thesis
      by (auto simp: processPendingLocalMessage_def)
  next
    assume ok: "r1 = Inr ()"
      and q: "pendingStates s1 = nextPendingAfterMarker (pendingStates s)"
      and frame: "closeFnCalls s1 = closeFnCalls s"
        "pendingMessagesCount s1 = pendingMessagesCount s"
    show ?thesis
    proof (cases "pendingStates s1")
      case Nil
      with run bb ok frame show ?thesis
        by (auto simp: processPendingLocalMessage_def peekNextPendingState_def)
    next
      case (Cons e rest)
      show ?thesis
      proof (cases e)
        case (FlushModeState fm)
        with Cons run bb ok frame show ?thesis
          by (auto simp: processPendingLocalMessage_def peekNextPendingState_def)
      next
        case Flush
        with Cons run bb ok frame show ?thesis
          by (auto simp: processPendingLocalMessage_def peekNextPendingState_def)
      next
        case (Message p)
        note head = Cons [unfolded Message]
        show ?thesis
        proof (cases "clientSequenceNumber p = m_clientSequenceNumber ack")
          case False
          with head run bb ok frame q show ?thesis
            by (auto simp: processPendingLocalMessage_def peekNextPendingState_def Let_def)
        next
          case True
          define s3 where "s3 = s1\<lparr> pendingStates := rest,
            pendingMessagesCount := pendingMessagesCount s1 - 1 \<rparr>"
          obtain r4 s4 where be: "maybeProcessBatchEnd ack s3 = (r4, s4)"
            by (cases "maybeProcessBatchEnd ack s3")
          from batchEnd_frame [OF be] have
            e1: "closeFnCalls s4 = closeFnCalls s"
            and e2: "r4 = Inr () \<or> (\<exists>msg. r4 = Inl (AssertFailed msg))"
            by (simp_all add: s3_def frame)
          from True head run bb ok frame q be e1 e2 show ?thesis
            by (auto simp: processPendingLocalMessage_def peekNextPendingState_def Let_def s3_def
                split: if_splits)
        qed
      qed
    qed
  qed
qed

lemma processMessage_local:
  "m_type ack \<noteq> ChunkedOp \<Longrightarrow>
   processMessage ack True s =
     (case processPendingLocalMessage ack s of
        (Inl e, s1) \<Rightarrow> (Inl e, s1)
      | (Inr v, s1) \<Rightarrow> (Inr \<lparr> localAck = False, resultLocalOpMetadata = v \<rparr>, s1))"
  by (simp add: processMessage_def)

lemma batchEnd_closing:
  fixes s :: "('c, 'm) PendingStateManager"
  assumes "pendingStates s = e # rest" and "e = Flush \<or> e = FlushModeState Automatic"
    and "pendingBatchBeginMessage s = Some b"
  shows "(batchMetadataOk b ack \<longrightarrow>
            maybeProcessBatchEnd ack s =
              (Inr (), s\<lparr> pendingStates := (if e = Flush then e # rest else rest),
                          pendingBatchBeginMessage := None, isProcessingBatch := False \<rparr>))
       \<and> (\<not> batchMetadataOk b ack \<longrightarrow>
            (\<exists>msg. maybeProcessBatchEnd ack s =
              (Inl (AssertFailed msg),
               s\<lparr> pendingStates := (if e = Flush then e # rest else rest) \<rparr>)))"
  using assms
  by (auto simp: maybeProcessBatchEnd_def peekNextPendingState_def batchMetadataOk_def Let_def)

lemma batchBegin_passes:
  assumes "batchBeginPasses s"
  shows "\<exists>s1. maybeProcessBatchBegin ack s = (Inr (), s1)
           \<and> pendingStates s1 = nextPendingAfterMarker (pendingStates s)
           \<and> closeFnCalls s1 = closeFnCalls s
           \<and> pendingMessagesCount s1 = pendingMessagesCount s"
proof (cases "pendingStates s")
  case Nil
  with assms show ?thesis by (simp add: batchBeginPasses_def)
next
  case (Cons e rest)
  with assms show ?thesis
    by (cases e)
       (auto simp: batchBeginPasses_def maybeProcessBatchBegin_def peekNextPendingState_def)
qed

section \<open>Submission: helper lemmas\<close>

lemma flushesFollowMessages_snoc:
  "flushesFollowMessages prev (xs @ [e]) =
     (flushesFollowMessages prev xs
      \<and> (e = Flush \<longrightarrow> (if xs = [] then prev else isMessage (last xs))))"
proof (induction prev xs rule: flushesFollowMessages.induct)
  case (1 prev)
  show ?case by (cases e) simp_all
next
  case (2 prev p rest)
  then show ?case by (cases rest) simp_all
next
  case (3 prev fm rest)
  then show ?case by (cases rest) simp_all
next
  case (4 prev rest)
  then show ?case by (cases rest) auto
qed

lemma flushesFollowMessages_butlast:
  "flushesFollowMessages prev xs \<Longrightarrow> flushesFollowMessages prev (butlast xs)"
proof (cases "xs = []")
  case True
  then show ?thesis by simp
next
  case False
  assume a: "flushesFollowMessages prev xs"
  from False have "xs = butlast xs @ [last xs]" by simp
  with a have "flushesFollowMessages prev (butlast xs @ [last xs])" by simp
  then show ?thesis by (simp only: flushesFollowMessages_snoc) 
qed

lemma submission_flushesFollowMessages:
  assumes "flushesFollowMessages False (pendingStates s)"
  shows "flushesFollowMessages False (pendingStates (submission x s))"
proof (cases x)
  case (SubmitMessage type csn rsn cont lom opm)
  with assms show ?thesis
    by (simp add: onSubmitMessage_def flushesFollowMessages_snoc)
next
  case (FlushModeUpdated fm)
  with assms show ?thesis
    by (cases fm)
       (auto simp: onFlushModeUpdated_def peekBack_def removeBack_def Let_def
          flushesFollowMessages_snoc flushesFollowMessages_butlast)
next
  case FlushCalled
  with assms show ?thesis
    by (auto simp: onFlush_def peekBack_def flushesFollowMessages_snoc
        split: option.splits IPendingState.splits if_splits)
next
  case (RuntimeFlushMode fm)
  with assms show ?thesis by simp
qed

lemma resubmitCalls_snoc:
  "resubmitCalls (xs @ [e]) = resubmitCalls xs @ (if isMessage e then [replayCall e] else [])"
  by (cases e) (simp_all add: resubmitCalls_def)

lemma resubmitCalls_butlast:
  assumes "xs \<noteq> []" and "\<not> isMessage (last xs)"
  shows "resubmitCalls (butlast xs) = resubmitCalls xs"
proof -
  from assms(1) have "xs = butlast xs @ [last xs]" by simp
  then have "resubmitCalls xs = resubmitCalls (butlast xs @ [last xs])" by simp
  with assms(2) show ?thesis by (simp only: resubmitCalls_snoc) simp
qed

lemma submission_resubmitCalls:
  "resubmitCalls (pendingStates (submission x s)) =
     resubmitCalls (pendingStates s) @ resubmissionsOf [x]"
proof (cases x)
  case (SubmitMessage type csn rsn cont lom opm)
  then show ?thesis
    by (simp add: onSubmitMessage_def resubmitCalls_snoc)
next
  case (FlushModeUpdated fm)
  then show ?thesis
    by (cases fm)
       (auto simp: onFlushModeUpdated_def peekBack_def removeBack_def Let_def
          resubmitCalls_snoc resubmitCalls_butlast)
next
  case FlushCalled
  then show ?thesis
    by (auto simp: onFlush_def peekBack_def resubmitCalls_snoc
        split: option.splits IPendingState.splits)
next
  case (RuntimeFlushMode fm)
  then show ?thesis by simp
qed

lemma resubmissionsOf_Cons: "resubmissionsOf (x # xs) = resubmissionsOf [x] @ resubmissionsOf xs"
  by (cases x) simp_all

lemma runSubmissions_resubmitCalls:
  "resubmitCalls (pendingStates (runSubmissions ops s)) =
     resubmitCalls (pendingStates s) @ resubmissionsOf ops"
proof (induction ops arbitrary: s)
  case Nil
  show ?case by simp
next
  case (Cons x xs)
  show ?case
    by (simp add: Cons.IH submission_resubmitCalls) (simp add: resubmissionsOf_Cons [of x xs])
qed

lemma submission_count:
  "pendingMessagesCount (submission x s) =
     pendingMessagesCount s + (if isSubmitMessage x then 1 else 0)"
proof (cases x)
  case (FlushModeUpdated fm)
  then show ?thesis
    by (cases fm) (simp_all add: onFlushModeUpdated_def Let_def)
next
  case FlushCalled
  then show ?thesis
    by (simp add: onFlush_def split: option.splits IPendingState.splits)
qed (simp_all add: onSubmitMessage_def)

lemma runSubmissions_count:
  "pendingMessagesCount (runSubmissions ops s) =
     pendingMessagesCount s + int (length (filter isSubmitMessage ops))"
  by (induction ops arbitrary: s) (simp_all add: submission_count)

lemma submission_clientId:
  "clientId (submission x s) = clientId s"
proof (cases x)
  case (FlushModeUpdated fm)
  then show ?thesis
    by (cases fm) (simp_all add: onFlushModeUpdated_def Let_def)
next
  case FlushCalled
  then show ?thesis
    by (simp add: onFlush_def split: option.splits IPendingState.splits)
qed (simp_all add: onSubmitMessage_def)


section \<open>Replay: helper lemmas\<close>

lemma rebaseRemainingInitialStates_eq:
  "initialStates s = xs \<Longrightarrow>
   rebaseRemainingInitialStates s =
     s\<lparr> initialStates := [], pendingStates := pendingStates s @ xs,
        rebaseOpCalls := rebaseOpCalls s @ rebasedOps xs \<rparr>"
proof (induction xs arbitrary: s)
  case Nil
  then show ?case by simp
next
  case (Cons e rest)
  then show ?case by (cases e) simp_all
qed

lemma appendsOnlyD:
  "appendsOnly f \<Longrightarrow> \<exists>added. pendingStates (f s) = pendingStates s @ added"
  by (simp add: appendsOnly_def)

lemma replayLoop_calls_bound:
  "length (fst (snd (replayLoop rt n s))) \<le> n"
proof (induction n arbitrary: s)
  case 0
  show ?case by simp
next
  case (Suc n)
  show ?case
  proof (cases "pendingStates s")
    case Nil
    then show ?thesis by simp
  next
    case (Cons e rest)
    obtain r calls s3 where
      "replayLoop rt n (replayEntry rt e (s\<lparr> pendingStates := rest \<rparr>)) = (r, calls, s3)"
      by (cases "replayLoop rt n (replayEntry rt e (s\<lparr> pendingStates := rest \<rparr>))")
    with Suc [of "replayEntry rt e (s\<lparr> pendingStates := rest \<rparr>)"] Cons show ?thesis
      by (simp add: Let_def)
  qed
qed

lemma replayLoop_keepsFront:
  "replayKeepsFront rt n s \<Longrightarrow>
   \<exists>s'. replayLoop rt n s = (Inr (), map replayCall (take n (pendingStates s)), s')"
proof (induction n arbitrary: s)
  case 0
  show ?case by simp
next
  case (Suc k)
  from Suc.prems obtain e rest where q: "pendingStates s = e # rest"
    by (cases "pendingStates s") simp_all
  define s2 where "s2 = replayEntry rt e (s\<lparr> pendingStates := rest \<rparr>)"
  from Suc.prems q have k: "take k (pendingStates s2) = take k rest"
    and keeps: "replayKeepsFront rt k s2"
    by (simp_all add: s2_def Let_def)
  from Suc.IH [OF keeps] obtain s' where
    "replayLoop rt k s2 = (Inr (), map replayCall (take k (pendingStates s2)), s')"
    by blast
  with q k show ?case
    by (simp add: Let_def s2_def)
qed

lemma replayKeepsFront_appendsOnly:
  assumes rt: "runtimeAppendsOnly rt"
  shows "n \<le> length (pendingStates s) \<Longrightarrow> replayKeepsFront rt n s"
proof (induction n arbitrary: s)
  case 0
  show ?case by simp
next
  case (Suc k)
  then obtain e rest where q: "pendingStates s = e # rest"
    by (cases "pendingStates s") simp_all
  define s1 where "s1 = s\<lparr> pendingStates := rest \<rparr>"
  define s2 where "s2 = replayEntry rt e s1"
  have "\<exists>added. pendingStates s2 = pendingStates s1 @ added"
    using rt unfolding s2_def runtimeAppendsOnly_def
    by (cases e) (simp_all add: appendsOnlyD)
  then obtain added where a: "pendingStates s2 = rest @ added"
    by (auto simp: s1_def)
  from Suc.prems q have len: "k \<le> length rest" by simp
  with a have "k \<le> length (pendingStates s2)" by simp
  from Suc.IH [OF this] len a q show ?case
    by (simp add: Let_def s2_def s1_def)
qed

lemma replayPendingStates_keepsPending:
  assumes keeps: "replayKeepsPending rt s"
    and conn: "rt_connected s"
    and cid: "clientId s \<noteq> rt_clientId s"
  shows "\<exists>s3.
           replayPendingStates rt s =
             (if pendingStates s @ initialStates s = []
              then (Inr (), [],
                    s\<lparr> clientId := rt_clientId s, initialStates := [],
                       pendingStates := [], rebaseOpCalls := rebaseOpCalls s \<rparr>)
              else (Inr (),
                    map replayCall (pendingStates s @ initialStates s)
                      @ [SetFlushModeCall (rt_flushMode s)],
                    setFlushMode rt (rt_flushMode s) s3))"
proof -
  define q where "q = pendingStates s @ initialStates s"
  define s1 where "s1 = rebaseRemainingInitialStates (s\<lparr> clientId := rt_clientId s \<rparr>)"
  have s1: "s1 = s\<lparr> clientId := rt_clientId s, initialStates := [], pendingStates := q,
                    rebaseOpCalls := rebaseOpCalls s @ rebasedOps (initialStates s) \<rparr>"
    unfolding s1_def q_def
    by (subst rebaseRemainingInitialStates_eq [OF refl]) simp
  define s2 where "s2 = s1\<lparr> pendingMessagesCount := 0 \<rparr>"
  have q2: "pendingStates s2 = q"
    by (simp add: s2_def s1)
  from keeps have "replayKeepsFront rt (length q) s2"
    unfolding replayKeepsPending_def s1_def [symmetric]
    by (simp add: Let_def s1 s2_def)
  from replayLoop_keepsFront [OF this] obtain s3 where
    loop: "replayLoop rt (length q) s2 = (Inr (), map replayCall q, s3)"
    by (auto simp: q2)
  show ?thesis
  proof (cases "q = []")
    case True
    then have "pendingStates s = []" "initialStates s = []"
      by (simp_all add: q_def)
    with conn cid loop True show ?thesis
      using s1 unfolding replayPendingStates_def s1_def [symmetric] q_def [symmetric] s2_def
      by (auto simp: Let_def)
  next
    case False
    with conn cid loop show ?thesis
      using s1 unfolding replayPendingStates_def s1_def [symmetric] q_def [symmetric] s2_def
      by (auto simp: Let_def)
  qed
qed

section \<open>Flush entries: helper lemmas\<close>

lemma fsm_snoc:
  "flushesSeparateMessages prev (xs @ [e]) =
     (flushesSeparateMessages prev xs
      \<and> (e = Flush \<longrightarrow> (if xs = [] then prev else isMessage (last xs)))
      \<and> (xs \<noteq> [] \<and> last xs = Flush \<longrightarrow> isMessage e))"
proof (induction prev xs rule: flushesSeparateMessages.induct)
  case (1 prev)
  show ?case by (cases e) simp_all
next
  case (2 prev p rest)
  then show ?case by (cases rest) auto
next
  case (3 prev fm rest)
  then show ?case by (cases rest) auto
next
  case (4 prev rest)
  then show ?case by (cases rest) auto
qed

lemma fsm_butlast:
  "flushesSeparateMessages prev xs \<Longrightarrow> flushesSeparateMessages prev (butlast xs)"
proof (cases "xs = []")
  case True
  then show ?thesis by simp
next
  case False
  assume a: "flushesSeparateMessages prev xs"
  from False have "xs = butlast xs @ [last xs]" by simp
  with a have "flushesSeparateMessages prev (butlast xs @ [last xs])" by simp
  then show ?thesis by (simp only: fsm_snoc)
qed

lemma fsm_last_flush:
  assumes "flushesSeparateMessages True xs" and "xs \<noteq> []" and "last xs = Flush"
  shows "butlast xs = [] \<or> isMessage (last (butlast xs))"
proof -
  from assms(2) have "xs = butlast xs @ [last xs]" by simp
  with assms(1) have "flushesSeparateMessages True (butlast xs @ [last xs])" by simp
  with assms(3) show ?thesis by (simp only: fsm_snoc) (auto split: if_splits)
qed

lemma fsm_before_last:
  assumes "flushesSeparateMessages True xs" and "xs \<noteq> []" and "\<not> isMessage (last xs)"
  shows "butlast xs = [] \<or> last (butlast xs) \<noteq> Flush"
proof -
  from assms(2) have "xs = butlast xs @ [last xs]" by simp
  with assms(1) have "flushesSeparateMessages True (butlast xs @ [last xs])" by simp
  with assms(3) show ?thesis by (simp only: fsm_snoc) auto
qed

lemma fsm_mono: "flushesSeparateMessages False xs \<Longrightarrow> flushesSeparateMessages True xs"
proof (cases xs)
  case Nil
  then show ?thesis by simp
next
  case (Cons e rest)
  assume "flushesSeparateMessages False xs"
  with Cons show ?thesis by (cases e) simp_all
qed

lemma fsm_tl: "flushesSeparateMessages prev (e # xs) \<Longrightarrow> flushesSeparateMessages True xs"
  by (cases e) (simp_all add: fsm_mono)

lemma fsm_drop: "flushesSeparateMessages True xs \<Longrightarrow> flushesSeparateMessages True (drop k xs)"
proof (induction k arbitrary: xs)
  case 0
  then show ?case by simp
next
  case (Suc k)
  show ?case
  proof (cases xs)
    case Nil
    then show ?thesis by simp
  next
    case (Cons e rest)
    with Suc.prems have "flushesSeparateMessages True rest" by (simp add: fsm_tl)
    from Suc.IH [OF this] Cons show ?thesis by simp
  qed
qed

lemma queueInv_popsFront:
  assumes "queueInv s" and "popsFront s s'"
  shows "queueInv s'"
proof -
  from assms(2) obtain k where k: "pendingStates s' = drop k (pendingStates s)"
    and m: "rt_flushMode s' = rt_flushMode s" and i: "initialStates s' = initialStates s"
    by (auto simp: popsFront_def)
  from assms(1) have "flushesSeparateMessages True (drop k (pendingStates s))"
    by (simp add: queueInv_def fsm_drop)
  moreover have "drop k (pendingStates s) = [] \<or> last (drop k (pendingStates s)) \<noteq> Flush
      \<or> rt_flushMode s = Manual"
    using assms(1)
    by (cases "k < length (pendingStates s)") (auto simp: queueInv_def last_drop)
  ultimately show ?thesis
    using assms(1) by (simp add: queueInv_def k m i)
qed

lemma popsFront_refl: "popsFront s s"
  unfolding popsFront_def by (auto intro: exI [of _ 0])

lemma popsFront_trans: "popsFront s s1 \<Longrightarrow> popsFront s1 s2 \<Longrightarrow> popsFront s s2"
  unfolding popsFront_def by (auto simp: drop_drop)

lemma popsFront_tl:
  assumes "pendingStates s' = tl (pendingStates s)" "rt_flushMode s' = rt_flushMode s"
    "initialStates s' = initialStates s"
  shows "popsFront s s'"
  unfolding popsFront_def using assms by (auto simp: drop_Suc intro: exI [of _ 1])

lemma popsFront_same:
  assumes "pendingStates s' = pendingStates s" "rt_flushMode s' = rt_flushMode s"
    "initialStates s' = initialStates s"
  shows "popsFront s s'"
  unfolding popsFront_def using assms by (auto intro: exI [of _ 0])

lemma queueInv_submit:
  "queueInv s \<Longrightarrow> queueInv (onSubmitMessage type csn rsn cont lom opm s)"
  by (simp add: queueInv_def onSubmitMessage_def fsm_snoc)

lemma queueInv_flush: "queueInv s \<Longrightarrow> queueInv (flush notifyingRuntime s)"
proof (cases "rt_flushMode s")
  case Automatic
  assume "queueInv s"
  with Automatic show ?thesis by (simp add: notifyingRuntime_def onFlush_def)
next
  case Manual
  assume inv: "queueInv s"
  show ?thesis
  proof (cases "pendingStates s = []")
    case True
    with inv show ?thesis by (simp add: notifyingRuntime_def onFlush_def peekBack_def)
  next
    case False
    with inv Manual show ?thesis
      by (cases "last (pendingStates s)")
         (simp_all add: notifyingRuntime_def onFlush_def peekBack_def queueInv_def fsm_snoc)
  qed
qed

lemma queueInv_setFlushMode: "queueInv s \<Longrightarrow> queueInv (setFlushMode notifyingRuntime fm s)"
proof (cases "fm = rt_flushMode s")
  case True
  assume "queueInv s"
  with True show ?thesis by (simp add: notifyingRuntime_def)
next
  case False
  assume inv: "queueInv s"
  show ?thesis
  proof (cases fm)
    case Manual
    with False have "rt_flushMode s = Automatic" by (cases "rt_flushMode s") simp_all
    with inv Manual show ?thesis
      by (auto simp: notifyingRuntime_def onFlushModeUpdated_def queueInv_def fsm_snoc)
  next
    case Automatic
    show ?thesis
    proof (cases "pendingStates s = []")
      case True
      with inv Automatic False show ?thesis
        by (simp add: notifyingRuntime_def onFlushModeUpdated_def peekBack_def queueInv_def)
    next
      case ne: False
      show ?thesis
      proof (cases "last (pendingStates s)")
        case (Message p)
        with inv Automatic False ne show ?thesis
          by (simp add: notifyingRuntime_def onFlushModeUpdated_def peekBack_def removeBack_def queueInv_def
              fsm_snoc)
      next
        case Flush
        from inv ne Flush have "butlast (pendingStates s) = []
            \<or> isMessage (last (butlast (pendingStates s)))"
          by (simp add: queueInv_def fsm_last_flush)
        with inv Automatic False ne Flush show ?thesis
          by (auto simp: notifyingRuntime_def onFlushModeUpdated_def peekBack_def removeBack_def queueInv_def
              fsm_snoc fsm_butlast)
      next
        case (FlushModeState m)
        from inv ne FlushModeState have b: "butlast (pendingStates s) = []
            \<or> last (butlast (pendingStates s)) \<noteq> Flush"
          by (simp add: queueInv_def fsm_before_last)
        show ?thesis
        proof (cases m)
          case Manual
          with inv Automatic False ne FlushModeState b show ?thesis
            by (auto simp: notifyingRuntime_def onFlushModeUpdated_def peekBack_def removeBack_def
                queueInv_def fsm_butlast)
        next
          case Automatic
          with inv \<open>fm = Automatic\<close> False ne FlushModeState show ?thesis
            by (auto simp: notifyingRuntime_def onFlushModeUpdated_def peekBack_def removeBack_def
                queueInv_def fsm_snoc)
        qed
      qed
    qed
  qed
qed

lemma popsFront_step:
  assumes "pendingStates s' = pendingStates s \<or> pendingStates s' = tl (pendingStates s)"
    and "rt_flushMode s' = rt_flushMode s" and "initialStates s' = initialStates s"
  shows "popsFront s s'"
  using assms popsFront_same [of s' s] popsFront_tl [of s' s] by blast

lemma popsFront_batchBegin: "popsFront s (snd (maybeProcessBatchBegin ack s))"
proof (rule popsFront_step)
  show "pendingStates (snd (maybeProcessBatchBegin ack s)) = pendingStates s
      \<or> pendingStates (snd (maybeProcessBatchBegin ack s)) = tl (pendingStates s)"
    by (cases "pendingStates s")
       (simp_all add: maybeProcessBatchBegin_def peekNextPendingState_def)
  show "rt_flushMode (snd (maybeProcessBatchBegin ack s)) = rt_flushMode s"
    by (cases "pendingStates s")
       (simp_all add: maybeProcessBatchBegin_def peekNextPendingState_def)
  show "initialStates (snd (maybeProcessBatchBegin ack s)) = initialStates s"
    by (cases "pendingStates s")
       (simp_all add: maybeProcessBatchBegin_def peekNextPendingState_def)
qed

lemma popsFront_batchEnd: "popsFront s (snd (maybeProcessBatchEnd ack s))"
proof (rule popsFront_step)
  show "pendingStates (snd (maybeProcessBatchEnd ack s)) = pendingStates s
      \<or> pendingStates (snd (maybeProcessBatchEnd ack s)) = tl (pendingStates s)"
    by (cases "pendingStates s"; cases "pendingBatchBeginMessage s")
       (simp_all add: maybeProcessBatchEnd_def peekNextPendingState_def Let_def)
  show "rt_flushMode (snd (maybeProcessBatchEnd ack s)) = rt_flushMode s"
    by (cases "pendingStates s"; cases "pendingBatchBeginMessage s")
       (simp_all add: maybeProcessBatchEnd_def peekNextPendingState_def Let_def)
  show "initialStates (snd (maybeProcessBatchEnd ack s)) = initialStates s"
    by (cases "pendingStates s"; cases "pendingBatchBeginMessage s")
       (simp_all add: maybeProcessBatchEnd_def peekNextPendingState_def Let_def)
qed

lemma popsFront_local: "popsFront s (snd (processPendingLocalMessage ack s))"
proof -
  obtain r1 s1 where bb: "maybeProcessBatchBegin ack s = (r1, s1)"
    by (cases "maybeProcessBatchBegin ack s")
  with popsFront_batchBegin [of s ack] have p1: "popsFront s s1" by simp
  show ?thesis
  proof (cases r1)
    case (Inl e)
    with bb p1 show ?thesis by (simp add: processPendingLocalMessage_def)
  next
    case (Inr u)
    show ?thesis
    proof (cases "pendingStates s1")
      case Nil
      with bb Inr p1 show ?thesis
        by (simp add: processPendingLocalMessage_def peekNextPendingState_def)
    next
      case (Cons e rest)
      show ?thesis
      proof (cases e)
        case (FlushModeState fm)
        with Cons bb Inr p1 show ?thesis
          by (simp add: processPendingLocalMessage_def peekNextPendingState_def)
      next
        case Flush
        with Cons bb Inr p1 show ?thesis
          by (simp add: processPendingLocalMessage_def peekNextPendingState_def)
      next
        case (Message p)
        define s2 where "s2 = s1\<lparr> pendingStates := tl (pendingStates s1) \<rparr>"
        have p2: "popsFront s1 s2"
          by (rule popsFront_tl) (simp_all add: s2_def)
        define s3 where "s3 = s2\<lparr> pendingMessagesCount := pendingMessagesCount s2 - 1 \<rparr>"
        have p3: "popsFront s2 s3"
          by (rule popsFront_same) (simp_all add: s3_def)
        have pc: "popsFront s2 (s2\<lparr> closeFnCalls := closeFnCalls s2 @
                          [unexpectedAck ack (clientSequenceNumber p)] \<rparr>)"
          by (rule popsFront_same) simp_all
        have p4: "popsFront s3 (snd (maybeProcessBatchEnd ack s3))"
          by (rule popsFront_batchEnd)
        note t = popsFront_trans [OF p1 p2]
        have "snd (processPendingLocalMessage ack s) = s2\<lparr> closeFnCalls := closeFnCalls s2 @
                          [unexpectedAck ack (clientSequenceNumber p)] \<rparr>
            \<or> snd (processPendingLocalMessage ack s) = s3
            \<or> snd (processPendingLocalMessage ack s) = snd (maybeProcessBatchEnd ack s3)"
          using Cons Message bb Inr
          by (auto simp: processPendingLocalMessage_def peekNextPendingState_def Let_def
              s2_def s3_def split: prod.splits sum.splits)
        with popsFront_trans [OF t pc] popsFront_trans [OF t p3]
          popsFront_trans [OF popsFront_trans [OF t p3] p4]
        show ?thesis by auto
      qed
    qed
  qed
qed

lemma popsFront_dequeue: "popsFront s (snd (dequeueOneMessage s))"
proof (induction s rule: dequeueOneMessage.induct)
  case (1 s)
  show ?case
  proof (cases "pendingStates s")
    case Nil
    then show ?thesis by (simp add: popsFront_refl)
  next
    case (Cons e rest)
    have step: "popsFront s (s\<lparr> pendingStates := rest \<rparr>)"
      by (rule popsFront_tl) (simp_all add: Cons)
    show ?thesis
    proof (cases e)
      case (Message p)
      with Cons step show ?thesis by simp
    next
      case (FlushModeState fm)
      with Cons step "1.IH"(1) [OF Cons FlushModeState] show ?thesis
        by (subst dequeueOneMessage.simps) (auto intro: popsFront_trans)
    next
      case Flush
      with Cons step "1.IH"(2) [OF Cons Flush] show ?thesis
        by (subst dequeueOneMessage.simps) (auto intro: popsFront_trans)
    qed
  qed
qed

lemma popsFront_remote:
  assumes "initialStates s = []"
  shows "popsFront s (snd (processRemoteMessage message s))"
proof -
  from assms have r: "rebaseInitialStates message s = (None, s)" by simp
  obtain d s2 where d: "dequeueOneMessage s = (d, s2)"
    by (cases "dequeueOneMessage s")
  with popsFront_dequeue [of s] have "popsFront s s2" by simp
  with d show ?thesis
    unfolding processRemoteMessage_def r
    by (cases d)
       (simp_all add: popsFront_refl del: dequeueOneMessage.simps rebaseInitialStates.simps)
qed

lemma popsFront_processMessage:
  assumes "initialStates s = []"
  shows "popsFront s (snd (processMessage message local s))"
proof -
  obtain v s1 where l: "processPendingLocalMessage message s = (v, s1)"
    by (cases "processPendingLocalMessage message s")
  with popsFront_local [of s message] have "popsFront s s1" by simp
  with l popsFront_remote [OF assms, of message] show ?thesis
    by (cases v) (simp_all add: processMessage_def popsFront_refl)
qed

lemma queueInv_processMessage:
  "queueInv s \<Longrightarrow> queueInv (snd (processMessage message local s))"
  by (rule queueInv_popsFront, assumption, rule popsFront_processMessage)
     (simp add: queueInv_def)

lemma queueInv_replayEntry: "queueInv s \<Longrightarrow> queueInv (replayEntry notifyingRuntime e s)"
proof (cases e)
  case (Message p)
  assume "queueInv s"
  then have "queueInv (onSubmitMessage (messageType p) (100 + pendingMessagesCount s) 0
      (content p) (localOpMetadata p) (opMetadata p) s)"
    by (rule queueInv_submit)
  with Message show ?thesis by (simp add: notifyingRuntime_def)
next
  case (FlushModeState fm)
  assume "queueInv s"
  with FlushModeState show ?thesis by (simp add: queueInv_setFlushMode)
next
  case Flush
  assume "queueInv s"
  with Flush show ?thesis by (simp add: queueInv_flush)
qed

lemma queueInv_replayLoop: "queueInv s \<Longrightarrow> queueInv (snd (snd (replayLoop notifyingRuntime n s)))"
proof (induction n arbitrary: s)
  case 0
  then show ?case by simp
next
  case (Suc n)
  show ?case
  proof (cases "pendingStates s")
    case Nil
    with Suc.prems show ?thesis by simp
  next
    case (Cons e rest)
    define s1 where "s1 = s\<lparr> pendingStates := rest \<rparr>"
    have "popsFront s s1"
      by (rule popsFront_tl) (simp_all add: s1_def Cons)
    with Suc.prems have "queueInv s1" by (rule queueInv_popsFront)
    then have "queueInv (replayEntry notifyingRuntime e s1)" by (rule queueInv_replayEntry)
    from Suc.IH [OF this] Cons show ?thesis
      by (auto simp: Let_def s1_def split: prod.splits)
  qed
qed

lemma queueInv_replayPendingStates:
  assumes "queueInv s"
  shows "queueInv (snd (snd (replayPendingStates notifyingRuntime s)))"
proof -
  define s0 where "s0 = s\<lparr> clientId := rt_clientId s \<rparr>"
  from assms have i: "initialStates s0 = []" by (simp add: queueInv_def s0_def)
  have s1: "rebaseRemainingInitialStates s0 = s0\<lparr> initialStates := [],
      pendingStates := pendingStates s0 @ [], rebaseOpCalls := rebaseOpCalls s0 @ rebasedOps [] \<rparr>"
    by (rule rebaseRemainingInitialStates_eq) (rule i)
  define s2 where "s2 = (rebaseRemainingInitialStates s0)\<lparr> pendingMessagesCount := 0 \<rparr>"
  from assms have inv1: "queueInv (rebaseRemainingInitialStates s0)"
    unfolding s1 by (simp add: queueInv_def s0_def)
  then have inv2: "queueInv s2" by (simp add: queueInv_def s2_def)
  define n where "n = length (pendingStates (rebaseRemainingInitialStates s0))"
  obtain r calls s3 where loop: "replayLoop notifyingRuntime n s2 = (r, calls, s3)"
    by (cases "replayLoop notifyingRuntime n s2")
  with queueInv_replayLoop [OF inv2, of n] have inv3: "queueInv s3" by simp
  then have inv4: "queueInv (setFlushMode notifyingRuntime (rt_flushMode s2) s3)"
    by (rule queueInv_setFlushMode)
  from assms inv1 inv3 inv4 loop show ?thesis
    unfolding replayPendingStates_def s0_def [symmetric] Let_def n_def [symmetric]
      s2_def [symmetric]
    by (cases r) (simp_all del: replayLoop.simps)
qed

lemma queueInv_runtimeEvent: "queueInv s \<Longrightarrow> queueInv (runtimeEvent x s)"
proof (cases x)
  case (SubmitEvent type csn rsn cont lom opm)
  assume "queueInv s"
  with SubmitEvent show ?thesis by (simp add: queueInv_submit)
next
  case (SetFlushModeEvent fm)
  assume "queueInv s"
  with SetFlushModeEvent show ?thesis by (simp add: queueInv_setFlushMode)
next
  case FlushEvent
  assume "queueInv s"
  with FlushEvent show ?thesis by (simp add: queueInv_flush)
next
  case (ProcessMessageEvent message local)
  assume "queueInv s"
  with ProcessMessageEvent show ?thesis by (simp add: queueInv_processMessage)
next
  case (ConnectEvent cid)
  assume "queueInv s"
  then have "queueInv (s\<lparr> rt_connected := True, rt_clientId := cid \<rparr>)"
    by (simp add: queueInv_def)
  then have "queueInv (snd (snd (replayPendingStates notifyingRuntime
      (s\<lparr> rt_connected := True, rt_clientId := cid \<rparr>))))"
    by (rule queueInv_replayPendingStates)
  with ConnectEvent show ?thesis by simp
qed

lemma queueInv_runEvents: "queueInv s \<Longrightarrow> queueInv (runEvents evs s)"
  by (induction evs arbitrary: s) (simp_all add: queueInv_runtimeEvent)

lemma list_all_butlast: "list_all P xs \<Longrightarrow> list_all P (butlast xs)"
  by (auto simp: list_all_iff dest: in_set_butlastD)

lemma list_all_drop: "list_all P xs \<Longrightarrow> list_all P (drop k xs)"
  by (auto simp: list_all_iff dest: in_set_dropD)

lemma onlyFlushModes_setFlushMode:
  "onlyFlushModes s \<Longrightarrow> onlyFlushModes (setFlushMode notifyingRuntime fm s)"
  by (cases fm)
     (auto simp: onlyFlushModes_def notifyingRuntime_def onFlushModeUpdated_def removeBack_def Let_def
        list_all_butlast)

lemma onlyFlushModes_flush: "onlyFlushModes s \<Longrightarrow> flush notifyingRuntime s = s"
proof (cases "pendingStates s = []")
  case True
  then show ?thesis by (simp add: notifyingRuntime_def onFlush_def peekBack_def)
next
  case False
  assume "onlyFlushModes s"
  with False have "isFlushModeState (last (pendingStates s))"
    by (simp add: onlyFlushModes_def list_all_iff)
  with False show ?thesis
    by (cases "last (pendingStates s)") (simp_all add: notifyingRuntime_def onFlush_def peekBack_def)
qed

lemma onlyFlushModes_popsFront:
  "onlyFlushModes s \<Longrightarrow> popsFront s s' \<Longrightarrow> onlyFlushModes s'"
  by (auto simp: onlyFlushModes_def popsFront_def list_all_drop)

lemma onlyFlushModes_replayLoop:
  "onlyFlushModes s \<Longrightarrow> onlyFlushModes (snd (snd (replayLoop notifyingRuntime n s)))"
proof (induction n arbitrary: s)
  case 0
  then show ?case by simp
next
  case (Suc n)
  show ?case
  proof (cases "pendingStates s")
    case Nil
    with Suc.prems show ?thesis by simp
  next
    case (Cons e rest)
    define s1 where "s1 = s\<lparr> pendingStates := rest \<rparr>"
    from Suc.prems Cons have s1: "onlyFlushModes s1" and e: "isFlushModeState e"
      by (simp_all add: onlyFlushModes_def s1_def)
    from e obtain fm where "e = FlushModeState fm" by (cases e) simp_all
    with s1 have "onlyFlushModes (replayEntry notifyingRuntime e s1)"
      by (simp add: onlyFlushModes_setFlushMode)
    from Suc.IH [OF this] Cons show ?thesis
      by (auto simp: Let_def s1_def split: prod.splits)
  qed
qed

lemma onlyFlushModes_replayPendingStates:
  assumes "onlyFlushModes s"
  shows "onlyFlushModes (snd (snd (replayPendingStates notifyingRuntime s)))"
proof -
  define s0 where "s0 = s\<lparr> clientId := rt_clientId s \<rparr>"
  from assms have i: "initialStates s0 = []" by (simp add: onlyFlushModes_def s0_def)
  have s1: "rebaseRemainingInitialStates s0 = s0\<lparr> initialStates := [],
      pendingStates := pendingStates s0 @ [], rebaseOpCalls := rebaseOpCalls s0 @ rebasedOps [] \<rparr>"
    by (rule rebaseRemainingInitialStates_eq) (rule i)
  define s2 where "s2 = (rebaseRemainingInitialStates s0)\<lparr> pendingMessagesCount := 0 \<rparr>"
  from assms have inv1: "onlyFlushModes (rebaseRemainingInitialStates s0)"
    unfolding s1 by (simp add: onlyFlushModes_def s0_def)
  then have inv2: "onlyFlushModes s2" by (simp add: onlyFlushModes_def s2_def)
  define n where "n = length (pendingStates (rebaseRemainingInitialStates s0))"
  obtain r calls s3 where loop: "replayLoop notifyingRuntime n s2 = (r, calls, s3)"
    by (cases "replayLoop notifyingRuntime n s2")
  with onlyFlushModes_replayLoop [OF inv2, of n] have inv3: "onlyFlushModes s3" by simp
  then have inv4: "onlyFlushModes (setFlushMode notifyingRuntime (rt_flushMode s2) s3)"
    by (rule onlyFlushModes_setFlushMode)
  from assms inv1 inv3 inv4 loop show ?thesis
    unfolding replayPendingStates_def s0_def [symmetric] Let_def n_def [symmetric]
      s2_def [symmetric]
    by (cases r) (simp_all del: replayLoop.simps)
qed

lemma onlyFlushModes_runtimeEvent:
  assumes "onlyFlushModes s" and "\<not> isSubmitEvent x"
  shows "onlyFlushModes (runtimeEvent x s)"
proof (cases x)
  case (SubmitEvent type csn rsn cont lom opm)
  with assms(2) show ?thesis by simp
next
  case (SetFlushModeEvent fm)
  with assms(1) show ?thesis by (simp add: onlyFlushModes_setFlushMode)
next
  case FlushEvent
  with assms(1) show ?thesis by (simp add: onlyFlushModes_flush)
next
  case (ProcessMessageEvent message local)
  from assms(1) have "popsFront s (snd (processMessage message local s))"
    by (intro popsFront_processMessage) (simp add: onlyFlushModes_def)
  with assms(1) ProcessMessageEvent show ?thesis
    by (simp add: onlyFlushModes_popsFront)
next
  case (ConnectEvent cid)
  from assms(1) have "onlyFlushModes (s\<lparr> rt_connected := True, rt_clientId := cid \<rparr>)"
    by (simp add: onlyFlushModes_def)
  then have "onlyFlushModes (snd (snd (replayPendingStates notifyingRuntime
      (s\<lparr> rt_connected := True, rt_clientId := cid \<rparr>))))"
    by (rule onlyFlushModes_replayPendingStates)
  with ConnectEvent show ?thesis by simp
qed

lemma onlyFlushModes_runEvents:
  "onlyFlushModes s \<Longrightarrow> \<forall>x\<in>set evs. \<not> isSubmitEvent x \<Longrightarrow> onlyFlushModes (runEvents evs s)"
  by (induction evs arbitrary: s) (simp_all add: onlyFlushModes_runtimeEvent)

lemma onlyFlushModes_no_flush: "onlyFlushModes s \<Longrightarrow> Flush \<notin> set (pendingStates s)"
  by (auto simp: onlyFlushModes_def list_all_iff)

lemma submissionEvent_flushesFollowMessages:
  assumes "flushesFollowMessages False (pendingStates s)" and "isSubmissionEvent x"
  shows "flushesFollowMessages False (pendingStates (runtimeEvent x s))"
proof (cases x)
  case (SubmitEvent type csn rsn cont lom opm)
  with submission_flushesFollowMessages [OF assms(1), of "SubmitMessage type csn rsn cont lom opm"]
  show ?thesis by simp
next
  case (SetFlushModeEvent fm)
  with submission_flushesFollowMessages [OF assms(1), of "FlushModeUpdated fm"] assms(1)
  show ?thesis by (simp add: notifyingRuntime_def)
next
  case FlushEvent
  with submission_flushesFollowMessages [OF assms(1), of FlushCalled]
  show ?thesis by (simp add: notifyingRuntime_def)
next
  case (ProcessMessageEvent message local)
  with assms(2) show ?thesis by simp
next
  case (ConnectEvent cid)
  with assms(2) show ?thesis by simp
qed

lemma submissionEvents_flushesFollowMessages:
  "flushesFollowMessages False (pendingStates s) \<Longrightarrow> \<forall>x\<in>set evs. isSubmissionEvent x \<Longrightarrow>
   flushesFollowMessages False (pendingStates (runEvents evs s))"
  by (induction evs arbitrary: s) (simp_all add: submissionEvent_flushesFollowMessages)

section \<open>The examples evaluated\<close>

lemma batchOfThree_pending:
  "pendingStates batchOfThree =
     [FlushModeState Manual, Message (exampleMessage 1 ''a'' ''meta-a''), Message (exampleMessage 2 ''b'' ''meta-b''),
      Message (exampleMessage 3 ''c'' ''meta-c''), Flush]"
  by (simp add: batchOfThree_def example_defs exampleMessage_def)

lemma afterTwoAcks_eval:
  "afterTwoAcks = freshManager\<lparr> pendingStates := [Message (exampleMessage 3 ''c'' ''meta-c''), Flush],
     pendingMessagesCount := 1, isProcessingBatch := True,
     pendingBatchBeginMessage := Some (exampleAck 1 10 1 (Some True)),
     rt_flushMode := Manual \<rparr>"
  by (simp add: afterTwoAcks_def batchOfThree_def example_defs exampleMessage_def ack_defs)

lemma staleModes_eval:
  "staleModes = freshManager\<lparr> pendingStates :=
        [FlushModeState Automatic, Message (exampleMessage 2 ''b'' ''meta-b''),
         FlushModeState Manual],
      pendingMessagesCount := 1,
      clientId := Some ''client-1'', rt_clientId := Some ''client-2'', rt_flushMode := Manual \<rparr>"
  by (simp add: staleModes_def staleModeEvents_def notifyingRuntime_def example_defs ack_defs
      replayPendingStates_def Let_def)

lemma danglingModes_eval:
  "danglingModes = freshManager\<lparr> pendingStates :=
        [FlushModeState Automatic, FlushModeState Manual],
      clientId := Some ''client-1'', rt_clientId := Some ''client-2'', rt_flushMode := Manual \<rparr>"
  by (simp add: danglingModes_def danglingModeEvents_def notifyingRuntime_def example_defs ack_defs
      replayPendingStates_def Let_def)

section \<open>C1: the value returned for a local ack\<close>

text \<open>
  C1, as the code has it. For an ack that is not a chunked op and is processed with
  \<open>local = True\<close>: when the head of the pending queue is a message with the ack's client
  sequence number (and no batch is open), \<open>processMessage\<close> returns
  \<open>localAck = False\<close> together with the popped message's \<open>localOpMetadata\<close>, pops the
  message and decrements the count; and whenever \<open>processMessage\<close> returns normally
  without a call of \<^verbatim>\<open>closeFn\<close>, the value is \<open>localAck = False\<close> with the
  \<open>localOpMetadata\<close> of the message that stood at the head after the batch-begin marker,
  whose client sequence number is the ack's. The claim's \<open>localAck: true\<close> is not what
  line 232 returns.
\<close>

theorem processMessage_local_result:
  fixes s :: "('c, 'm) PendingStateManager"
  assumes "m_type ack \<noteq> ChunkedOp"
  shows "(\<forall>p rest. pendingStates s = Message p # rest \<and> \<not> isProcessingBatch s
             \<and> clientSequenceNumber p = m_clientSequenceNumber ack \<longrightarrow>
           processMessage ack True s =
             (Inr \<lparr> localAck = False, resultLocalOpMetadata = Some (localOpMetadata p) \<rparr>,
              s\<lparr> pendingStates := rest, pendingMessagesCount := pendingMessagesCount s - 1 \<rparr>))
       \<and> (\<forall>r s'. processMessage ack True s = (Inr r, s') \<and> closeFnCalls s' = closeFnCalls s \<longrightarrow>
           (\<exists>p rest. nextPendingAfterMarker (pendingStates s) = Message p # rest
               \<and> clientSequenceNumber p = m_clientSequenceNumber ack
               \<and> r = \<lparr> localAck = False, resultLocalOpMetadata = Some (localOpMetadata p) \<rparr>))"
proof (intro conjI allI impI)
  fix p rest
  assume "pendingStates s = Message p # rest \<and> \<not> isProcessingBatch s
             \<and> clientSequenceNumber p = m_clientSequenceNumber ack"
  with assms show "processMessage ack True s =
             (Inr \<lparr> localAck = False, resultLocalOpMetadata = Some (localOpMetadata p) \<rparr>,
              s\<lparr> pendingStates := rest, pendingMessagesCount := pendingMessagesCount s - 1 \<rparr>)"
    by (simp add: processMessage_def processPendingLocalMessage_def maybeProcessBatchBegin_def
        peekNextPendingState_def)
next
  fix r s'
  assume a: "processMessage ack True s = (Inr r, s') \<and> closeFnCalls s' = closeFnCalls s"
  obtain v s1 where run: "processPendingLocalMessage ack s = (v, s1)"
    by (cases "processPendingLocalMessage ack s")
  from a run assms have "s1 = s'"
    and "\<exists>w. v = Inr w \<and> r = \<lparr> localAck = False, resultLocalOpMetadata = w \<rparr>"
    by (auto simp: processMessage_local split: sum.splits)
  with local_cases [OF run] a
  show "\<exists>p rest. nextPendingAfterMarker (pendingStates s) = Message p # rest
               \<and> clientSequenceNumber p = m_clientSequenceNumber ack
               \<and> r = \<lparr> localAck = False, resultLocalOpMetadata = Some (localOpMetadata p) \<rparr>"
    by auto
qed

text \<open>The theorem at the ack of the one submitted op (client sequence number 5).\<close>

theorem processMessage_local_result_witness:
  "m_type (exampleAck 1 10 5 None) \<noteq> ChunkedOp
   \<and> processMessage (exampleAck 1 10 5 None) True submittedOne =
       (Inr \<lparr> localAck = False, resultLocalOpMetadata = Some ''meta-a'' \<rparr>,
        freshManager)"
proof -
  have h: "m_type (exampleAck 1 10 5 None) \<noteq> ChunkedOp"
    by (simp add: example_defs)
  have "processMessage (exampleAck 1 10 5 None) True submittedOne =
       (Inr \<lparr> localAck = False, resultLocalOpMetadata = Some (localOpMetadata
          \<lparr> messageType = ''op'', clientSequenceNumber = 5, referenceSequenceNumber = 0,
            content = ''a'', localOpMetadata = ''meta-a'', opMetadata = None \<rparr>) \<rparr>,
        submittedOne\<lparr> pendingStates := [],
          pendingMessagesCount := pendingMessagesCount submittedOne - 1 \<rparr>)"
    by (rule processMessage_local_result [OF h, THEN conjunct1, rule_format])
       (simp add: example_defs)
  with h show ?thesis
    by (simp add: example_defs)
qed

text \<open>
  The claim as stated fails there: the ack passes every check, and the value returned
  has \<open>localAck = False\<close>.
\<close>

theorem processMessage_local_ack_counterexample:
  "fst (processMessage (exampleAck 1 10 5 None) True submittedOne) =
     Inr \<lparr> localAck = False, resultLocalOpMetadata = Some ''meta-a'' \<rparr>
   \<and> fst (processMessage (exampleAck 1 10 5 None) True submittedOne) \<noteq>
     Inr \<lparr> localAck = True, resultLocalOpMetadata = Some ''meta-a'' \<rparr>
   \<and> closeFnCalls (snd (processMessage (exampleAck 1 10 5 None) True submittedOne)) = []"
  by (simp add: example_defs ack_defs)

section \<open>C2: the count of pending messages\<close>

text \<open>
  C2 fails on the code. The rehydrated manager holds one initial message with reference
  sequence number 100; an op of another client sequenced at 100 makes
  \<open>processRemoteMessage\<close> rebase that message and push it onto the pending queue, and
  \<open>pendingMessagesCount\<close> stays 0: the queue holds one message that the count does not
  see, \<open>hasPendingMessages\<close> answers no, and \<open>getLocalState\<close> returns nothing.
\<close>

theorem processRemoteMessage_count_mismatch:
  "processMessage remoteAck False rehydratedManager =
     (Inr \<lparr> localAck = False, resultLocalOpMetadata = None \<rparr>,
      rehydratedManager\<lparr> initialStates := [], pendingStates := [Message staleMessage],
        rebaseOpCalls := [(''a'', ''meta-a'')] \<rparr>)
   \<and> pendingMessagesCount (snd (processMessage remoteAck False rehydratedManager)) = 0
   \<and> length (filter isMessage
        (pendingStates (snd (processMessage remoteAck False rehydratedManager)))) = 1
   \<and> hasPendingMessages (snd (processMessage remoteAck False rehydratedManager)) = False
   \<and> getLocalState (snd (processMessage remoteAck False rehydratedManager)) = None"
  by (simp add: remoteAck_def example_defs processMessage_def processRemoteMessage_def
      getLocalState_def hasPendingMessages_def)

text \<open>
  The submission path keeps the count in step: after any sequence of submissions on a new
  manager, \<open>pendingMessagesCount\<close> is the number of messages in the pending queue.
\<close>

lemma length_resubmitCalls: "length (resubmitCalls xs) = length (filter isMessage xs)"
proof (induction xs)
  case Nil
  show ?case by (simp add: resubmitCalls_def)
next
  case (Cons e xs)
  then show ?case by (cases e) (simp_all add: resubmitCalls_def)
qed

lemma length_resubmissionsOf: "length (resubmissionsOf ops) = length (filter isSubmitMessage ops)"
proof (induction ops)
  case Nil
  show ?case by simp
next
  case (Cons x xs)
  then show ?case by (cases x) simp_all
qed

lemma submissions_keep_count:
  "pendingMessagesCount (runSubmissions ops (newPendingStateManager conn cid fm initialState)) =
     int (length (filter isMessage
       (pendingStates (runSubmissions ops (newPendingStateManager conn cid fm initialState)))))"
proof -
  have "length (resubmitCalls
      (pendingStates (runSubmissions ops (newPendingStateManager conn cid fm initialState)))) =
      length (filter isSubmitMessage ops)"
    unfolding runSubmissions_resubmitCalls
    by (simp add: newPendingStateManager_fields resubmitCalls_def length_resubmissionsOf)
  then show ?thesis
    by (simp add: runSubmissions_count newPendingStateManager_fields length_resubmitCalls)
qed

section \<open>C3: the outcomes of a local ack\<close>

text \<open>
  C3, as the code has it. For an ack that is not a chunked op and is processed with
  \<open>local = True\<close>, the state before the call decides the outcome. An assertion fails, the
  state is left as it was and \<^verbatim>\<open>closeFn\<close> is not called when the pending queue is empty,
  when its head is an automatic flush-mode entry, or when its head is a flush entry or a
  manual flush-mode entry while a batch is open. Once the batch-begin step passes, an
  assertion fails without a call of \<^verbatim>\<open>closeFn\<close> and without a message counted as acked
  when nothing, or an entry that is not a message, stands behind the marker. When a
  message stands there with a client sequence number other than the ack's, the call
  returns no metadata, the message is popped but not counted, and \<^verbatim>\<open>closeFn\<close> is called
  exactly once, with the error "Unexpected ack received" whose
  \<open>expectedClientSequenceNumber\<close> is the pending message's and whose
  \<open>clientSequenceNumber\<close> is the ack's. When the message has the ack's client sequence
  number, \<^verbatim>\<open>closeFn\<close> is not called, the message is counted as acked, and the call
  returns its local metadata unless an assertion of the batch-end step fails.
\<close>

theorem processMessage_local_outcomes:
  fixes s :: "('c, 'm) PendingStateManager"
  assumes "m_type ack \<noteq> ChunkedOp"
  shows "(pendingStates s = [] \<longrightarrow>
            processMessage ack True s =
              (Inl (AssertFailed ''No pending state found for the remote message''), s))
       \<and> (\<forall>rest. pendingStates s = FlushModeState Automatic # rest \<longrightarrow>
            processMessage ack True s =
              (Inl (AssertFailed ''Flush mode should be manual when processing batch begin''), s))
       \<and> (\<forall>marker rest. pendingStates s = marker # rest
              \<and> (marker = Flush \<or> marker = FlushModeState Manual)
              \<and> (isProcessingBatch s \<or> pendingBatchBeginMessage s \<noteq> None) \<longrightarrow>
            processMessage ack True s =
              (Inl (AssertFailed
                 ''The pending batch state indicates we are already processing a batch''), s))
       \<and> (batchBeginPasses s \<and> nextPendingAfterMarker (pendingStates s) = [] \<longrightarrow>
            (\<exists>s'. processMessage ack True s =
               (Inl (AssertFailed ''No pending state found for the remote message''), s')
               \<and> closeFnCalls s' = closeFnCalls s
               \<and> pendingMessagesCount s' = pendingMessagesCount s))
       \<and> (\<forall>e rest. batchBeginPasses s
              \<and> nextPendingAfterMarker (pendingStates s) = e # rest \<and> \<not> isMessage e \<longrightarrow>
            (\<exists>s'. processMessage ack True s =
               (Inl (AssertFailed ''No pending message found for this remote message''), s')
               \<and> closeFnCalls s' = closeFnCalls s
               \<and> pendingMessagesCount s' = pendingMessagesCount s))
       \<and> (\<forall>p rest. batchBeginPasses s
              \<and> nextPendingAfterMarker (pendingStates s) = Message p # rest
              \<and> clientSequenceNumber p \<noteq> m_clientSequenceNumber ack \<longrightarrow>
            (\<exists>s'. processMessage ack True s =
               (Inr \<lparr> localAck = False, resultLocalOpMetadata = None \<rparr>, s')
               \<and> closeFnCalls s' = closeFnCalls s @
                    [\<lparr> e_message = ''Unexpected ack received'',
                       e_clientId = m_clientId ack,
                       e_sequenceNumber = m_sequenceNumber ack,
                       e_clientSequenceNumber = m_clientSequenceNumber ack,
                       e_expectedClientSequenceNumber = clientSequenceNumber p \<rparr>]
               \<and> pendingStates s' = rest
               \<and> pendingMessagesCount s' = pendingMessagesCount s))
       \<and> (\<forall>p rest. batchBeginPasses s
              \<and> nextPendingAfterMarker (pendingStates s) = Message p # rest
              \<and> clientSequenceNumber p = m_clientSequenceNumber ack \<longrightarrow>
            (\<exists>r s'. processMessage ack True s = (r, s')
               \<and> closeFnCalls s' = closeFnCalls s
               \<and> pendingMessagesCount s' = pendingMessagesCount s - 1
               \<and> (r = Inr \<lparr> localAck = False,
                             resultLocalOpMetadata = Some (localOpMetadata p) \<rparr>
                    \<or> (\<exists>msg. r = Inl (AssertFailed msg)))))"
proof (intro conjI allI impI)
  assume "pendingStates s = []"
  with assms show "processMessage ack True s =
      (Inl (AssertFailed ''No pending state found for the remote message''), s)"
    by (simp add: ack_defs)
next
  fix rest
  assume "pendingStates s = FlushModeState Automatic # rest"
  with assms show "processMessage ack True s =
      (Inl (AssertFailed ''Flush mode should be manual when processing batch begin''), s)"
    by (simp add: ack_defs)
next
  fix marker rest
  assume "pendingStates s = marker # rest
              \<and> (marker = Flush \<or> marker = FlushModeState Manual)
              \<and> (isProcessingBatch s \<or> pendingBatchBeginMessage s \<noteq> None)"
  with assms show "processMessage ack True s =
      (Inl (AssertFailed
         ''The pending batch state indicates we are already processing a batch''), s)"
    by (auto simp: ack_defs)
next
  assume a: "batchBeginPasses s \<and> nextPendingAfterMarker (pendingStates s) = []"
  from batchBegin_passes [of s ack] a obtain s1 where
    "maybeProcessBatchBegin ack s = (Inr (), s1)" "pendingStates s1 = []"
    "closeFnCalls s1 = closeFnCalls s" "pendingMessagesCount s1 = pendingMessagesCount s"
    by auto
  with assms show "\<exists>s'. processMessage ack True s =
               (Inl (AssertFailed ''No pending state found for the remote message''), s')
               \<and> closeFnCalls s' = closeFnCalls s
               \<and> pendingMessagesCount s' = pendingMessagesCount s"
    by (simp add: processMessage_def processPendingLocalMessage_def peekNextPendingState_def)
next
  fix e rest
  assume a: "batchBeginPasses s
              \<and> nextPendingAfterMarker (pendingStates s) = e # rest \<and> \<not> isMessage e"
  from batchBegin_passes [of s ack] a obtain s1 where
    "maybeProcessBatchBegin ack s = (Inr (), s1)" "pendingStates s1 = e # rest"
    "closeFnCalls s1 = closeFnCalls s" "pendingMessagesCount s1 = pendingMessagesCount s"
    by auto
  with assms a show "\<exists>s'. processMessage ack True s =
               (Inl (AssertFailed ''No pending message found for this remote message''), s')
               \<and> closeFnCalls s' = closeFnCalls s
               \<and> pendingMessagesCount s' = pendingMessagesCount s"
    by (cases e)
       (simp_all add: processMessage_def processPendingLocalMessage_def peekNextPendingState_def)
next
  fix p rest
  assume a: "batchBeginPasses s
              \<and> nextPendingAfterMarker (pendingStates s) = Message p # rest
              \<and> clientSequenceNumber p \<noteq> m_clientSequenceNumber ack"
  from batchBegin_passes [of s ack] a obtain s1 where
    "maybeProcessBatchBegin ack s = (Inr (), s1)" "pendingStates s1 = Message p # rest"
    "closeFnCalls s1 = closeFnCalls s" "pendingMessagesCount s1 = pendingMessagesCount s"
    by auto
  with assms a show "\<exists>s'. processMessage ack True s =
               (Inr \<lparr> localAck = False, resultLocalOpMetadata = None \<rparr>, s')
               \<and> closeFnCalls s' = closeFnCalls s @
                    [\<lparr> e_message = ''Unexpected ack received'',
                       e_clientId = m_clientId ack,
                       e_sequenceNumber = m_sequenceNumber ack,
                       e_clientSequenceNumber = m_clientSequenceNumber ack,
                       e_expectedClientSequenceNumber = clientSequenceNumber p \<rparr>]
               \<and> pendingStates s' = rest
               \<and> pendingMessagesCount s' = pendingMessagesCount s"
    by (simp add: processMessage_def processPendingLocalMessage_def peekNextPendingState_def
        unexpectedAck_def Let_def)
next
  fix p rest
  assume a: "batchBeginPasses s
              \<and> nextPendingAfterMarker (pendingStates s) = Message p # rest
              \<and> clientSequenceNumber p = m_clientSequenceNumber ack"
  from batchBegin_passes [of s ack] a obtain s1 where
    s1: "maybeProcessBatchBegin ack s = (Inr (), s1)" "pendingStates s1 = Message p # rest"
    "closeFnCalls s1 = closeFnCalls s" "pendingMessagesCount s1 = pendingMessagesCount s"
    by auto
  define s3 where "s3 = s1\<lparr> pendingStates := rest,
            pendingMessagesCount := pendingMessagesCount s1 - 1 \<rparr>"
  obtain r4 s4 where be: "maybeProcessBatchEnd ack s3 = (r4, s4)"
    by (cases "maybeProcessBatchEnd ack s3")
  from batchEnd_frame [OF be] have
    e: "closeFnCalls s4 = closeFnCalls s"
       "pendingMessagesCount s4 = pendingMessagesCount s - 1"
       "r4 = Inr () \<or> (\<exists>msg. r4 = Inl (AssertFailed msg))"
    by (simp_all add: s3_def s1)
  from assms a s1 be e show "\<exists>r s'. processMessage ack True s = (r, s')
               \<and> closeFnCalls s' = closeFnCalls s
               \<and> pendingMessagesCount s' = pendingMessagesCount s - 1
               \<and> (r = Inr \<lparr> localAck = False,
                             resultLocalOpMetadata = Some (localOpMetadata p) \<rparr>
                    \<or> (\<exists>msg. r = Inl (AssertFailed msg)))"
    by (auto simp: processMessage_def processPendingLocalMessage_def peekNextPendingState_def
        Let_def s3_def)
qed

text \<open>
  The theorem at a mismatch: the op was submitted with client sequence number 5 and the
  ack carries 6.
\<close>

theorem processMessage_local_outcomes_witness:
  "m_type (exampleAck 1 10 6 None) \<noteq> ChunkedOp
   \<and> batchBeginPasses submittedOne
   \<and> nextPendingAfterMarker (pendingStates submittedOne) = [Message (exampleMessage 5 ''a'' ''meta-a'')]
   \<and> fst (processMessage (exampleAck 1 10 6 None) True submittedOne) =
       Inr \<lparr> localAck = False, resultLocalOpMetadata = None \<rparr>
   \<and> closeFnCalls (snd (processMessage (exampleAck 1 10 6 None) True submittedOne)) =
       [\<lparr> e_message = ''Unexpected ack received'', e_clientId = ''client-1'',
          e_sequenceNumber = 10, e_clientSequenceNumber = 6,
          e_expectedClientSequenceNumber = 5 \<rparr>]"
proof -
  have h: "m_type (exampleAck 1 10 6 None) \<noteq> ChunkedOp"
    by (simp add: example_defs)
  have b: "batchBeginPasses submittedOne"
    by (simp add: batchBeginPasses_def example_defs)
  have q: "nextPendingAfterMarker (pendingStates submittedOne) =
      Message (exampleMessage 5 ''a'' ''meta-a'') # []"
    by (simp add: example_defs)
  have n: "clientSequenceNumber (exampleMessage 5 ''a'' ''meta-a'') \<noteq>
      m_clientSequenceNumber (exampleAck 1 10 6 None)"
    by (simp add: example_defs)
  have c: "closeFnCalls submittedOne = []"
    by (simp add: example_defs)
  from processMessage_local_outcomes [OF h, of submittedOne] b q n
  obtain s' where "processMessage (exampleAck 1 10 6 None) True submittedOne =
               (Inr \<lparr> localAck = False, resultLocalOpMetadata = None \<rparr>, s')"
    and "closeFnCalls s' = closeFnCalls submittedOne @
                    [\<lparr> e_message = ''Unexpected ack received'',
                       e_clientId = m_clientId (exampleAck 1 10 6 None),
                       e_sequenceNumber = m_sequenceNumber (exampleAck 1 10 6 None),
                       e_clientSequenceNumber = m_clientSequenceNumber (exampleAck 1 10 6 None),
                       e_expectedClientSequenceNumber =
                         clientSequenceNumber (exampleMessage 5 ''a'' ''meta-a'') \<rparr>]"
    by blast
  then have "fst (processMessage (exampleAck 1 10 6 None) True submittedOne) =
       Inr \<lparr> localAck = False, resultLocalOpMetadata = None \<rparr>
   \<and> closeFnCalls (snd (processMessage (exampleAck 1 10 6 None) True submittedOne)) =
       [\<lparr> e_message = ''Unexpected ack received'', e_clientId = ''client-1'',
          e_sequenceNumber = 10, e_clientSequenceNumber = 6,
          e_expectedClientSequenceNumber = 5 \<rparr>]"
    by (simp add: c exampleAck_def exampleMessage_def)
  with h b q show ?thesis by simp
qed

text \<open>
  The claim as stated fails on an empty pending queue: the head is no message, and the
  call ends in a failed assertion without any call of \<^verbatim>\<open>closeFn\<close>.
\<close>

theorem processMessage_local_empty_counterexample:
  "processMessage (exampleAck 1 10 1 None) True freshManager =
     (Inl (AssertFailed ''No pending state found for the remote message''), freshManager)
   \<and> pendingStates freshManager = []
   \<and> closeFnCalls freshManager = []"
  by (simp add: example_defs ack_defs)

section \<open>C4: serialise, rehydrate, replay\<close>




section \<open>C5: batch metadata at the end of a batch\<close>

text \<open>
  C5, as the code has it. Let a local ack (not a chunked op) match the message at the head
  of the pending queue and let the entry behind that message be a flush entry or an
  automatic flush-mode entry, so that the ack closes the batch; the batch is either open
  already, with \<open>b\<close> recorded as its first message, or opened by this ack's marker, in
  which case \<open>b\<close> is the ack itself. If the batch-metadata rule holds (a single-message
  batch carries no batch metadata; otherwise \<open>b\<close> carries \<open>batch = true\<close> and the ack
  \<open>batch = false\<close>), the ack succeeds, an automatic flush-mode entry is popped, a flush
  entry stays, and the batch state is cleared. If the rule is violated, an assertion
  fails: an exception is thrown and \<^verbatim>\<open>closeFn\<close> is not called.
\<close>

theorem processMessage_batch_end_metadata:
  fixes s :: "('c, 'm) PendingStateManager"
  assumes "m_type ack \<noteq> ChunkedOp"
    and "clientSequenceNumber p = m_clientSequenceNumber ack"
    and "e = Flush \<or> e = FlushModeState Automatic"
    and "(isProcessingBatch s \<and> pendingBatchBeginMessage s = Some b
            \<and> pendingStates s = Message p # e # rest)
       \<or> (\<not> isProcessingBatch s \<and> pendingBatchBeginMessage s = None \<and> b = ack
            \<and> (\<exists>marker. (marker = Flush \<or> marker = FlushModeState Manual)
                  \<and> pendingStates s = marker # Message p # e # rest))"
  shows "(batchMetadataOk b ack \<longrightarrow>
            processMessage ack True s =
              (Inr \<lparr> localAck = False, resultLocalOpMetadata = Some (localOpMetadata p) \<rparr>,
               s\<lparr> pendingStates := (if e = Flush then e # rest else rest),
                   pendingMessagesCount := pendingMessagesCount s - 1,
                   pendingBatchBeginMessage := None, isProcessingBatch := False \<rparr>))
       \<and> (\<not> batchMetadataOk b ack \<longrightarrow>
            (\<exists>msg. fst (processMessage ack True s) = Inl (AssertFailed msg))
            \<and> closeFnCalls (snd (processMessage ack True s)) = closeFnCalls s)"
proof -
  from assms(4) show ?thesis
  proof
    assume "isProcessingBatch s \<and> pendingBatchBeginMessage s = Some b
            \<and> pendingStates s = Message p # e # rest"
    then have a: "isProcessingBatch s" "pendingBatchBeginMessage s = Some b"
      "pendingStates s = Message p # e # rest"
      by simp_all
    define s3 where "s3 = s\<lparr> pendingStates := e # rest,
      pendingMessagesCount := pendingMessagesCount s - 1 \<rparr>"
    have run: "processMessage ack True s =
      (case maybeProcessBatchEnd ack s3 of
         (Inl x, s4) \<Rightarrow> (Inl x, s4)
       | (Inr u, s4) \<Rightarrow>
           (Inr \<lparr> localAck = False, resultLocalOpMetadata = Some (localOpMetadata p) \<rparr>, s4))"
      using a assms(1,2)
      by (simp add: processMessage_def processPendingLocalMessage_def maybeProcessBatchBegin_def
          peekNextPendingState_def s3_def split: prod.splits sum.splits)
    have s3: "pendingStates s3 = e # rest" "pendingBatchBeginMessage s3 = Some b"
      using a by (simp_all add: s3_def)
    from batchEnd_closing [OF s3(1) assms(3) s3(2), of ack] show ?thesis
      unfolding run by (auto simp: s3_def)
  next
    assume "\<not> isProcessingBatch s \<and> pendingBatchBeginMessage s = None \<and> b = ack
            \<and> (\<exists>marker. (marker = Flush \<or> marker = FlushModeState Manual)
                  \<and> pendingStates s = marker # Message p # e # rest)"
    then obtain marker where a: "\<not> isProcessingBatch s" "pendingBatchBeginMessage s = None"
      "b = ack" "marker = Flush \<or> marker = FlushModeState Manual"
      "pendingStates s = marker # Message p # e # rest"
      by blast
    define s3 where "s3 = s\<lparr> pendingBatchBeginMessage := Some ack, isProcessingBatch := True,
      pendingStates := e # rest, pendingMessagesCount := pendingMessagesCount s - 1 \<rparr>"
    have run: "processMessage ack True s =
      (case maybeProcessBatchEnd ack s3 of
         (Inl x, s4) \<Rightarrow> (Inl x, s4)
       | (Inr u, s4) \<Rightarrow>
           (Inr \<lparr> localAck = False, resultLocalOpMetadata = Some (localOpMetadata p) \<rparr>, s4))"
      using a assms(1,2)
      by (auto simp add: processMessage_def processPendingLocalMessage_def maybeProcessBatchBegin_def
          peekNextPendingState_def s3_def split: prod.splits sum.splits)
    have s3: "pendingStates s3 = e # rest" "pendingBatchBeginMessage s3 = Some b"
      using a by (simp_all add: s3_def)
    from batchEnd_closing [OF s3(1) assms(3) s3(2), of ack] show ?thesis
      unfolding run by (auto simp: s3_def)
  qed
qed

text \<open>
  The theorem on the batch of three ops: the acks carry \<open>batch = true\<close> on the first,
  nothing on the second and \<open>batch = false\<close> on the third, and the third ack closes the
  batch.
\<close>

theorem processMessage_batch_end_metadata_witness:
  "m_type (exampleAck 3 12 3 (Some False)) \<noteq> ChunkedOp
   \<and> clientSequenceNumber (exampleMessage 3 ''c'' ''meta-c'') = m_clientSequenceNumber (exampleAck 3 12 3 (Some False))
   \<and> isProcessingBatch afterTwoAcks
   \<and> pendingBatchBeginMessage afterTwoAcks = Some (exampleAck 1 10 1 (Some True))
   \<and> pendingStates afterTwoAcks = [Message (exampleMessage 3 ''c'' ''meta-c''), Flush]
   \<and> batchMetadataOk (exampleAck 1 10 1 (Some True)) (exampleAck 3 12 3 (Some False))
   \<and> processMessage (exampleAck 3 12 3 (Some False)) True afterTwoAcks =
       (Inr \<lparr> localAck = False, resultLocalOpMetadata = Some ''meta-c'' \<rparr>,
        freshManager\<lparr> pendingStates := [Flush], rt_flushMode := Manual \<rparr>)"
proof -
  have h: "m_type (exampleAck 3 12 3 (Some False)) \<noteq> ChunkedOp"
    "clientSequenceNumber (exampleMessage 3 ''c'' ''meta-c'') = m_clientSequenceNumber (exampleAck 3 12 3 (Some False))"
    "(Flush :: (string, string) IPendingState) = Flush \<or> (Flush :: (string, string) IPendingState) = FlushModeState Automatic"
    by (simp_all add: example_defs exampleMessage_def)
  have a: "isProcessingBatch afterTwoAcks"
    "pendingBatchBeginMessage afterTwoAcks = Some (exampleAck 1 10 1 (Some True))"
    "pendingStates afterTwoAcks = [Message (exampleMessage 3 ''c'' ''meta-c''), Flush]"
    unfolding afterTwoAcks_eval by simp_all
  have ok: "batchMetadataOk (exampleAck 1 10 1 (Some True)) (exampleAck 3 12 3 (Some False))"
    by (simp add: batchMetadataOk_def exampleAck_def)
  have "processMessage (exampleAck 3 12 3 (Some False)) True afterTwoAcks =
       (Inr \<lparr> localAck = False, resultLocalOpMetadata = Some (localOpMetadata (exampleMessage 3 ''c'' ''meta-c'')) \<rparr>,
        afterTwoAcks\<lparr> pendingStates := (if (Flush :: (string, string) IPendingState) = Flush then Flush # [] else []),
                   pendingMessagesCount := pendingMessagesCount afterTwoAcks - 1,
                   pendingBatchBeginMessage := None, isProcessingBatch := False \<rparr>)"
    using processMessage_batch_end_metadata [OF h, of afterTwoAcks "exampleAck 1 10 1 (Some True)" "[]"] a ok
    by blast
  then have "processMessage (exampleAck 3 12 3 (Some False)) True afterTwoAcks =
       (Inr \<lparr> localAck = False, resultLocalOpMetadata = Some ''meta-c'' \<rparr>,
        freshManager\<lparr> pendingStates := [Flush], rt_flushMode := Manual \<rparr>)"
    unfolding afterTwoAcks_eval by (simp add: exampleMessage_def example_defs)
  with h a ok show ?thesis
    by blast
qed

text \<open>
  The claim as stated fails when the third ack carries no batch metadata: the violation
  ends in a failed assertion, and no data-corruption error reaches \<^verbatim>\<open>closeFn\<close>.
\<close>

theorem batch_end_metadata_assert_counterexample:
  "pendingStates afterTwoAcks = [Message (exampleMessage 3 ''c'' ''meta-c''), Flush]
   \<and> pendingBatchBeginMessage afterTwoAcks = Some (exampleAck 1 10 1 (Some True))
   \<and> processMessage (exampleAck 3 12 3 None) True afterTwoAcks =
       (Inl (AssertFailed ''Did not receive batch end metadata''),
        afterTwoAcks\<lparr> pendingStates := [Flush], pendingMessagesCount := 0 \<rparr>)
   \<and> closeFnCalls (afterTwoAcks\<lparr> pendingStates := [Flush], pendingMessagesCount := 0 \<rparr>) = []"
  unfolding afterTwoAcks_eval
  by (simp add: example_defs exampleMessage_def ack_defs)

section \<open>C6: a snapshot too recent to rebase\<close>

text \<open>
  C6. Whenever the rebase loop of remote ack handling stands at an initial queue whose
  head is a message with client sequence number \<open>initialClientSeqNum\<close> and the ack's
  sequence number is strictly greater than that message's reference sequence number, the
  error "loaded from snapshot too recent to rebase pending initial ops" is thrown and the
  state is left as it was: the message is still in the initial queue and \<^verbatim>\<open>rebaseOp\<close>
  was not called for it. The same holds of \<open>processRemoteMessage\<close> and of
  \<open>processMessage\<close> with \<open>local = False\<close> when the loop starts there.
\<close>

theorem processRemoteMessage_snapshot_too_recent:
  fixes s :: "('c, 'm) PendingStateManager"
  assumes "initialStates s = Message h # rest"
    and "clientSequenceNumber h = initialClientSeqNum s"
    and "m_sequenceNumber ack > referenceSequenceNumber h"
  shows "rebaseInitialStates ack s =
           (Some (ThrownError ''loaded from snapshot too recent to rebase pending initial ops''), s)
       \<and> processRemoteMessage ack s =
           (Inl (ThrownError ''loaded from snapshot too recent to rebase pending initial ops''), s)
       \<and> (m_type ack \<noteq> ChunkedOp \<longrightarrow> processMessage ack False s =
           (Inl (ThrownError ''loaded from snapshot too recent to rebase pending initial ops''), s))"
  using assms by (simp add: processRemoteMessage_def processMessage_def)

text \<open>
  The theorem on the rehydrated manager: the initial message has reference sequence
  number 100 and the first remote ack has sequence number 150.
\<close>

theorem processRemoteMessage_snapshot_too_recent_witness:
  "initialStates rehydratedManager = [Message staleMessage]
   \<and> clientSequenceNumber staleMessage = initialClientSeqNum rehydratedManager
   \<and> m_sequenceNumber (exampleAck 1 150 1 None) > referenceSequenceNumber staleMessage
   \<and> processMessage (exampleAck 1 150 1 None) False rehydratedManager =
       (Inl (ThrownError ''loaded from snapshot too recent to rebase pending initial ops''),
        rehydratedManager)
   \<and> rebaseOpCalls rehydratedManager = []"
proof -
  have h: "initialStates rehydratedManager = Message staleMessage # []"
    "clientSequenceNumber staleMessage = initialClientSeqNum rehydratedManager"
    "m_sequenceNumber (exampleAck 1 150 1 None) > referenceSequenceNumber staleMessage"
    by (simp_all add: example_defs)
  have t: "m_type (exampleAck 1 150 1 None) \<noteq> ChunkedOp"
    by (simp add: example_defs)
  have r: "processMessage (exampleAck 1 150 1 None) False rehydratedManager =
       (Inl (ThrownError ''loaded from snapshot too recent to rebase pending initial ops''),
        rehydratedManager)"
    using processRemoteMessage_snapshot_too_recent [OF h] t by blast
  have c: "rebaseOpCalls rehydratedManager = []"
    by (simp add: example_defs)
  from h r c show ?thesis
    by blast
qed

section \<open>C7: the replay loop and its own resubmissions\<close>

text \<open>
  C7 fails on the code. On the runtime whose \<open>setFlushMode\<close> re-enters through
  \<open>onFlushModeUpdated\<close>, let the pending queue hold an automatic flush-mode entry, a
  message and a manual flush-mode entry while the runtime is in manual mode (the state
  \<open>staleModes\<close>, reached by the events above). \<open>replayPendingStates\<close> counts three
  entries. Replaying the first entry switches the runtime to automatic mode, and
  \<open>onFlushModeUpdated\<close> removes the manual entry from the back of the queue; the second
  iteration resubmits the message; the third iteration shifts the message that this
  resubmission has just pushed and resubmits it again. The runtime observes the op
  twice, and the manual entry is never replayed.
\<close>

theorem replayPendingStates_replays_own_resubmission:
  "pendingStates staleModes =
     [FlushModeState Automatic, Message (exampleMessage 2 ''b'' ''meta-b''),
      FlushModeState Manual]
   \<and> rt_flushMode staleModes = Manual
   \<and> rt_connected staleModes
   \<and> clientId staleModes \<noteq> rt_clientId staleModes
   \<and> fst (replayPendingStates notifyingRuntime staleModes) = Inr ()
   \<and> fst (snd (replayPendingStates notifyingRuntime staleModes)) =
       [SetFlushModeCall Automatic,
        ReSubmitCall ''op'' ''b'' ''meta-b'' None,
        ReSubmitCall ''op'' ''b'' ''meta-b'' None,
        SetFlushModeCall Manual]
   \<and> pendingStates (snd (snd (replayPendingStates notifyingRuntime staleModes))) =
       [Message (exampleMessage 101 ''b'' ''meta-b''), FlushModeState Manual]"
  unfolding staleModes_eval
  by (simp add: notifyingRuntime_def example_defs replayPendingStates_def Let_def)

text \<open>
  Without the message the loop reads past the end of the queue: the second \<^verbatim>\<open>shift()\<close>
  returns \<^verbatim>\<open>undefined\<close>, and the flush mode is not restored.
\<close>

lemma replayLoop_runs_out_of_entries:
  "pendingStates danglingModes = [FlushModeState Automatic, FlushModeState Manual]
   \<and> rt_connected danglingModes
   \<and> clientId danglingModes \<noteq> rt_clientId danglingModes
   \<and> fst (replayPendingStates notifyingRuntime danglingModes) = Inl TypeError
   \<and> fst (snd (replayPendingStates notifyingRuntime danglingModes)) = [SetFlushModeCall Automatic]"
  unfolding danglingModes_eval
  by (simp add: notifyingRuntime_def example_defs replayPendingStates_def Let_def)

text \<open>
  What holds of the loop: for any runtime it makes at most \<open>pendingStatesCount\<close> calls,
  and when no call removes an entry still to be replayed, it replays exactly the entries
  that were pending, in order, and restores the flush mode.
\<close>

lemma replay_bounds:
  fixes rt :: "('c, 'm) ContainerRuntime"
  shows "length (fst (snd (replayLoop rt n s0))) \<le> n"
    and "replayKeepsPending rt s \<Longrightarrow> rt_connected s \<Longrightarrow> clientId s \<noteq> rt_clientId s \<Longrightarrow>
         \<exists>s'. replayPendingStates rt s =
            (Inr (),
             (if pendingStates s @ initialStates s = [] then []
              else map replayCall (pendingStates s @ initialStates s)
                     @ [SetFlushModeCall (rt_flushMode s)]),
             s')"
    and "runtimeAppendsOnly rt \<Longrightarrow> n \<le> length (pendingStates s0) \<Longrightarrow> replayKeepsFront rt n s0"
proof -
  show "length (fst (snd (replayLoop rt n s0))) \<le> n"
    by (rule replayLoop_calls_bound)
  show "\<exists>s'. replayPendingStates rt s =
            (Inr (),
             (if pendingStates s @ initialStates s = [] then []
              else map replayCall (pendingStates s @ initialStates s)
                     @ [SetFlushModeCall (rt_flushMode s)]),
             s')"
    if "replayKeepsPending rt s" "rt_connected s" "clientId s \<noteq> rt_clientId s"
    using replayPendingStates_keepsPending [OF that]
    by (cases "pendingStates s @ initialStates s = []") auto
  show "replayKeepsFront rt n s0"
    if "runtimeAppendsOnly rt" "n \<le> length (pendingStates s0)"
    using that by (rule replayKeepsFront_appendsOnly)
qed

section \<open>C8: a flush-mode round trip without messages\<close>

text \<open>
  C8. \<open>onFlushModeUpdated Manual\<close> immediately followed by \<open>onFlushModeUpdated Automatic\<close>
  leaves the pending queue, and with it the whole state, exactly as it was.
\<close>

theorem onFlushModeUpdated_manual_automatic:
  "pendingStates (onFlushModeUpdated Automatic (onFlushModeUpdated Manual s)) = pendingStates s
   \<and> onFlushModeUpdated Automatic (onFlushModeUpdated Manual s) = s"
  by (simp add: onFlushModeUpdated_def peekBack_def removeBack_def Let_def)

text \<open>The theorem after one submitted op; in between, the manual entry is in the queue.\<close>

theorem onFlushModeUpdated_manual_automatic_witness:
  "onFlushModeUpdated Automatic (onFlushModeUpdated Manual submittedOne) = submittedOne
   \<and> pendingStates (onFlushModeUpdated Manual submittedOne) =
       pendingStates submittedOne @ [FlushModeState Manual]"
  using onFlushModeUpdated_manual_automatic [of submittedOne]
  by (simp add: onFlushModeUpdated_def)

section \<open>C9: flush entries in the pending queue\<close>

text \<open>
  C9, as the code has it. Take a manager built without rehydrated entries, on a runtime
  that reports a flush mode to the manager only when the mode changes, and any sequence
  of events: ops submitted, flush modes set, flushes requested, sequenced messages
  processed (local or remote), connections followed by a replay. In every state so
  reached, every flush entry of the pending queue has a message immediately before it
  unless it is the head of the queue, and a message immediately after it unless it is
  the tail of the queue. As long as no op has been submitted the queue holds no flush
  entry; as long as no message has been processed and nothing replayed, a flush entry is
  never the head. \<open>onFlush\<close> changes nothing when the runtime's flush mode is automatic
  or when the tail of the queue is not a message (the queue is empty or ends in another
  entry), and pushes a flush entry otherwise. Nothing is said of a manager that was
  rehydrated with entries.
\<close>

theorem flush_entries_separate_messages:
  fixes s :: "('c, 'm) PendingStateManager"
    and evs :: "('c, 'm) RuntimeEvent list"
  assumes "initialStates (newPendingStateManager conn cid fm initialState) = []"
  shows "flushesSeparateMessages True
           (pendingStates (runEvents evs (newPendingStateManager conn cid fm initialState)))
       \<and> ((\<forall>x\<in>set evs. \<not> isSubmitEvent x) \<longrightarrow>
            Flush \<notin> set (pendingStates
              (runEvents evs (newPendingStateManager conn cid fm initialState))))
       \<and> ((\<forall>x\<in>set evs. isSubmissionEvent x) \<longrightarrow>
            flushesFollowMessages False (pendingStates
              (runEvents evs (newPendingStateManager conn cid fm initialState))))
       \<and> (rt_flushMode s = Automatic
            \<or> pendingStates s = [] \<or> \<not> isMessage (last (pendingStates s))
            \<longrightarrow> onFlush s = s)
       \<and> (rt_flushMode s = Manual
            \<and> pendingStates s \<noteq> [] \<and> isMessage (last (pendingStates s))
            \<longrightarrow> onFlush s = s\<lparr> pendingStates := pendingStates s @ [Flush] \<rparr>)"
proof -
  let ?s0 = "newPendingStateManager conn cid fm initialState"
  have q0: "pendingStates ?s0 = []"
    by (simp add: newPendingStateManager_fields)
  with assms have "queueInv ?s0" and o: "onlyFlushModes ?s0"
    by (simp_all add: queueInv_def onlyFlushModes_def)
  then have "queueInv (runEvents evs ?s0)"
    by (intro queueInv_runEvents)
  then have sep: "flushesSeparateMessages True (pendingStates (runEvents evs ?s0))"
    by (simp add: queueInv_def)
  have before: "(\<forall>x\<in>set evs. \<not> isSubmitEvent x) \<longrightarrow>
      Flush \<notin> set (pendingStates (runEvents evs ?s0))"
    using onlyFlushModes_runEvents [OF o, of evs] by (auto dest: onlyFlushModes_no_flush)
  have strict: "(\<forall>x\<in>set evs. isSubmissionEvent x) \<longrightarrow>
      flushesFollowMessages False (pendingStates (runEvents evs ?s0))"
    using submissionEvents_flushesFollowMessages [of ?s0 evs] by (simp add: q0)
  have noop: "rt_flushMode s = Automatic
            \<or> pendingStates s = [] \<or> \<not> isMessage (last (pendingStates s))
            \<longrightarrow> onFlush s = s"
    by (cases "last (pendingStates s)") (auto simp: onFlush_def peekBack_def)
  have push: "rt_flushMode s = Manual
            \<and> pendingStates s \<noteq> [] \<and> isMessage (last (pendingStates s))
            \<longrightarrow> onFlush s = s\<lparr> pendingStates := pendingStates s @ [Flush] \<rparr>"
    by (cases "last (pendingStates s)") (auto simp: onFlush_def peekBack_def)
  from sep before strict noop push show ?thesis
    by blast
qed

text \<open>
  The theorem on the two manual batches after the ack of the first op, and \<open>onFlush\<close> in
  automatic mode.
\<close>

theorem flush_entries_separate_messages_witness:
  "initialStates freshManager = []
   \<and> pendingStates (runEvents twoBatchEvents freshManager) =
       [Flush, Message (exampleMessage 2 ''b'' ''meta-b'')]
   \<and> flushesSeparateMessages True (pendingStates (runEvents twoBatchEvents freshManager))
   \<and> rt_flushMode submittedOne = Automatic \<and> onFlush submittedOne = submittedOne"
proof -
  have i: "initialStates (newPendingStateManager True (Some ''client-1'') Automatic None
      :: (string, string) PendingStateManager) = []"
    by (simp add: newPendingStateManager_fields)
  have "flushesSeparateMessages True (pendingStates (runEvents twoBatchEvents freshManager))"
    unfolding freshManager_def
    by (rule flush_entries_separate_messages [OF i, THEN conjunct1])
  moreover have "pendingStates (runEvents twoBatchEvents freshManager) =
       [Flush, Message (exampleMessage 2 ''b'' ''meta-b'')]"
    by (simp add: twoBatchEvents_def notifyingRuntime_def example_defs ack_defs)
  moreover have a: "rt_flushMode submittedOne = Automatic"
    by (simp add: example_defs)
  moreover have "onFlush submittedOne = submittedOne"
    using flush_entries_separate_messages [OF i, of _ submittedOne] a by blast
  ultimately show ?thesis using i by (simp add: freshManager_def)
qed

text \<open>
  The claim as stated fails twice. The local ack of the first op ends the first batch and
  leaves the flush entry at the head of the queue, with no message before it. And on the
  rehydrated manager the entries rebased from the initial queue are pushed behind a
  flush entry: a manual flush-mode entry follows it, also after the next op is submitted.
\<close>

theorem flush_entry_placement_counterexample:
  "pendingStates twoBatches =
     [FlushModeState Manual, Message (exampleMessage 1 ''a'' ''meta-a''), Flush,
      Message (exampleMessage 2 ''b'' ''meta-b'')]
   \<and> fst (processMessage (exampleAck 1 10 1 None) True twoBatches) =
       Inr \<lparr> localAck = False, resultLocalOpMetadata = Some ''meta-a'' \<rparr>
   \<and> pendingStates (snd (processMessage (exampleAck 1 10 1 None) True twoBatches)) =
       [Flush, Message (exampleMessage 2 ''b'' ''meta-b'')]
   \<and> \<not> flushesFollowMessages False
         (pendingStates (snd (processMessage (exampleAck 1 10 1 None) True twoBatches)))
   \<and> pendingStates (runEvents rehydrationEvents rehydratedManual) =
       [FlushModeState Manual, Message (exampleMessage 7 ''x'' ''meta-x''), Flush,
        FlushModeState Manual, Message staleMessage,
        Message (exampleMessage 8 ''y'' ''meta-y'')]
   \<and> \<not> flushesSeparateMessages True (pendingStates (runEvents rehydrationEvents rehydratedManual))"
  by (simp add: rehydrationEvents_def rehydratedManual_def notifyingRuntime_def example_defs ack_defs
      processRemoteMessage_def)

section \<open>C10: a local ack that empties the queue inside a batch\<close>

text \<open>
  C10. A local ack (not a chunked op) peeks the front of the pending queue through
  \<open>peekNextPendingState\<close> at up to three points, and each fails the assertion
  "No pending state found for the remote message" on an empty queue: at batch begin
  (the queue is empty on entry), at the message match (the queue held only a batch-begin
  marker), and at batch end (the acked message was the last entry while a batch is
  open, either opened by this ack's marker or open before). In the last case the
  message has been popped and counted before the assertion fails; in no case is
  \<^verbatim>\<open>closeFn\<close> called, \<open>closeFnCalls\<close> being left as it was.
\<close>

theorem processMessage_local_peek_empty:
  fixes s :: "('c, 'm) PendingStateManager"
  assumes "m_type ack \<noteq> ChunkedOp"
  shows "(pendingStates s = [] \<longrightarrow>
            processMessage ack True s =
              (Inl (AssertFailed ''No pending state found for the remote message''), s))
       \<and> (\<forall>marker. pendingStates s = [marker] \<and> (marker = Flush \<or> marker = FlushModeState Manual)
              \<and> \<not> isProcessingBatch s \<and> pendingBatchBeginMessage s = None \<longrightarrow>
            processMessage ack True s =
              (Inl (AssertFailed ''No pending state found for the remote message''),
               s\<lparr> pendingBatchBeginMessage := Some ack, isProcessingBatch := True,
                   pendingStates := [] \<rparr>))
       \<and> (\<forall>marker p. pendingStates s = [marker, Message p]
              \<and> (marker = Flush \<or> marker = FlushModeState Manual)
              \<and> \<not> isProcessingBatch s \<and> pendingBatchBeginMessage s = None
              \<and> clientSequenceNumber p = m_clientSequenceNumber ack \<longrightarrow>
            processMessage ack True s =
              (Inl (AssertFailed ''No pending state found for the remote message''),
               s\<lparr> pendingBatchBeginMessage := Some ack, isProcessingBatch := True,
                   pendingStates := [], pendingMessagesCount := pendingMessagesCount s - 1 \<rparr>))
       \<and> (\<forall>p. pendingStates s = [Message p] \<and> isProcessingBatch s
              \<and> clientSequenceNumber p = m_clientSequenceNumber ack \<longrightarrow>
            processMessage ack True s =
              (Inl (AssertFailed ''No pending state found for the remote message''),
               s\<lparr> pendingStates := [], pendingMessagesCount := pendingMessagesCount s - 1 \<rparr>))"
  using assms by (auto simp: ack_defs)

text \<open>
  The theorem after \<open>onFlushModeUpdated Manual\<close> and a single \<open>onSubmitMessage\<close>, at
  the ack of that message.
\<close>

theorem processMessage_local_peek_empty_witness:
  "m_type (exampleAck 1 10 1 None) \<noteq> ChunkedOp
   \<and> pendingStates manualThenSubmit = [FlushModeState Manual, Message
        \<lparr> messageType = ''op'', clientSequenceNumber = 1, referenceSequenceNumber = 0,
          content = ''a'', localOpMetadata = ''meta-a'', opMetadata = None \<rparr>]
   \<and> fst (processMessage (exampleAck 1 10 1 None) True manualThenSubmit) =
       Inl (AssertFailed ''No pending state found for the remote message'')
   \<and> closeFnCalls (snd (processMessage (exampleAck 1 10 1 None) True manualThenSubmit)) = []"
proof -
  have h: "m_type (exampleAck 1 10 1 None) \<noteq> ChunkedOp"
    by (simp add: example_defs)
  have q: "pendingStates manualThenSubmit = [FlushModeState Manual, Message
        \<lparr> messageType = ''op'', clientSequenceNumber = 1, referenceSequenceNumber = 0,
          content = ''a'', localOpMetadata = ''meta-a'', opMetadata = None \<rparr>]"
    by (simp add: example_defs)
  have "processMessage (exampleAck 1 10 1 None) True manualThenSubmit =
     (Inl (AssertFailed ''No pending state found for the remote message''),
      manualThenSubmit\<lparr> pendingBatchBeginMessage := Some (exampleAck 1 10 1 None),
        isProcessingBatch := True, pendingStates := [],
        pendingMessagesCount := pendingMessagesCount manualThenSubmit - 1 \<rparr>)"
    by (rule processMessage_local_peek_empty [OF h, THEN conjunct2, THEN conjunct2,
          THEN conjunct1, rule_format,
          where marker = "FlushModeState Manual"
            and p = "\<lparr> messageType = ''op'', clientSequenceNumber = 1,
              referenceSequenceNumber = 0, content = ''a'', localOpMetadata = ''meta-a'',
              opMetadata = None \<rparr>"])
       (simp add: example_defs)
  with h q show ?thesis
    by (simp add: example_defs)
qed

end
